theory Spec2Isabelle
  imports Complex_Main
begin

section \<open>Route computation of src/lib/pathfinding.ts\<close>

text \<open>
  The embedding follows \<^verbatim>\<open>src/src/lib/pathfinding.ts\<close>, twice. In this section a
  JavaScript number is a real and every arithmetic operation is exact; the one place
  where the code uses \<^verbatim>\<open>Infinity\<close>, the distance table of the solver, has a constructor
  for it. The next section has the same code with every operation rounded to binary64,
  where a number can be \<^verbatim>\<open>NaN\<close>.
  \<^verbatim>\<open>Math.random()\<close> is the sequence \<open>rnd\<close> of its successive results, each in \<open>[0, 1)\<close>:
  the k-th call of one run of \<^verbatim>\<open>findShortestPath\<close> returns \<open>rnd k\<close>.
  The two \<^verbatim>\<open>while\<close> loops are partial functions into \<open>option\<close>: \<open>None\<close> is a loop
  that never ends.
\<close>

subsection \<open>Data model\<close>

record Location =
  lat :: real
  lng :: real
  name :: string
  category :: "string option"

text \<open>\<^verbatim>\<open>{ id: 'source', ...source }\<close>: a node is a location extended by its id.\<close>

record GraphNode = Location +
  node_id :: string

record GraphEdge =
  from_id :: string
  to_id :: string
  weight :: real
  distance :: real

record Direction =
  instruction :: string
  leg_distance :: real
  direction :: string

text \<open>
  \<open>totalDistance\<close> and \<open>totalTime\<close> hold the numbers that the source prints into the
  strings \<^verbatim>\<open>`${...} km`\<close> and \<^verbatim>\<open>`${...} min`\<close>.
\<close>

record RouteResult =
  path :: "GraphNode list"
  totalDistance :: real
  totalTime :: int
  algorithm :: string
  directions :: "Direction list"

datatype RouteType = Shortest | Safest

datatype jsnum = Num real | Infinity

subsection \<open>Numbers\<close>

text \<open>\<^verbatim>\<open>Math.round\<close> rounds halves up.\<close>

definition js_round :: "real \<Rightarrow> int" where
  "js_round x = \<lfloor>x + 1 / 2\<rfloor>"

text \<open>The remainder \<^verbatim>\<open>%\<close> takes the sign of the dividend.\<close>

definition js_mod :: "real \<Rightarrow> real \<Rightarrow> real" where
  "js_mod x y = x - y * of_int (if 0 \<le> x / y then \<lfloor>x / y\<rfloor> else \<lceil>x / y\<rceil>)"

definition atan2 :: "real \<Rightarrow> real \<Rightarrow> real" where
  "atan2 y x =
     (if 0 < x then arctan (y / x)
      else if x < 0 then (if 0 \<le> y then arctan (y / x) + pi else arctan (y / x) - pi)
      else if 0 < y then pi / 2
      else if y < 0 then - (pi / 2)
      else 0)"

text \<open>\<^verbatim>\<open>x || 0\<close> and \<^verbatim>\<open>x || Infinity\<close> on the result of \<^verbatim>\<open>Map.get\<close>: \<^verbatim>\<open>undefined\<close>
  and \<open>0\<close> are falsy.\<close>

fun orZero :: "jsnum option \<Rightarrow> jsnum" where
  "orZero None = Num 0"
| "orZero (Some (Num v)) = (if v = 0 then Num 0 else Num v)"
| "orZero (Some Infinity) = Infinity"

fun orInfinity :: "jsnum option \<Rightarrow> jsnum" where
  "orInfinity None = Infinity"
| "orInfinity (Some (Num v)) = (if v = 0 then Infinity else Num v)"
| "orInfinity (Some Infinity) = Infinity"

fun js_plus :: "jsnum \<Rightarrow> real \<Rightarrow> jsnum" where
  "js_plus (Num a) w = Num (a + w)"
| "js_plus Infinity w = Infinity"

fun js_less :: "jsnum \<Rightarrow> jsnum \<Rightarrow> bool" where
  "js_less (Num a) (Num b) = (a < b)"
| "js_less (Num a) Infinity = True"
| "js_less Infinity b = False"

text \<open>The template \<^verbatim>\<open>`${i}`\<close> of a non-negative integer.\<close>

fun string_of_nat :: "nat \<Rightarrow> string" where
  "string_of_nat n =
     (if n < 10 then [''0123456789'' ! n]
      else string_of_nat (n div 10) @ [''0123456789'' ! (n mod 10)])"

text \<open>\<^verbatim>\<open>toLowerCase\<close>, on the letters A to Z (it is applied to the compass names only).\<close>

definition toLowerCase :: "string \<Rightarrow> string" where
  "toLowerCase s =
     map (\<lambda>c. case map_of (zip ''ABCDEFGHIJKLMNOPQRSTUVWXYZ'' ''abcdefghijklmnopqrstuvwxyz'') c of
                None \<Rightarrow> c | Some l \<Rightarrow> l) s"

subsection \<open>Geo-math\<close>

definition toRadians :: "real \<Rightarrow> real" where
  "toRadians degrees = degrees * (pi / 180)"

definition calculateDistance :: "real \<Rightarrow> real \<Rightarrow> real \<Rightarrow> real \<Rightarrow> real" where
  "calculateDistance lat1 lon1 lat2 lon2 =
     (let R = 6371;
          dLat = toRadians (lat2 - lat1);
          dLon = toRadians (lon2 - lon1);
          a = sin (dLat / 2) * sin (dLat / 2) +
              cos (toRadians lat1) * cos (toRadians lat2) *
              sin (dLon / 2) * sin (dLon / 2);
          c = 2 * atan2 (sqrt a) (sqrt (1 - a))
      in R * c)"

definition compassNames :: "string list" where
  "compassNames = [''North'', ''Northeast'', ''East'', ''Southeast'',
                   ''South'', ''Southwest'', ''West'', ''Northwest'']"

definition calculateBearing :: "real \<Rightarrow> real \<Rightarrow> real \<Rightarrow> real \<Rightarrow> string" where
  "calculateBearing lat1 lon1 lat2 lon2 =
     (let dLon = toRadians (lon2 - lon1);
          lat1Rad = toRadians lat1;
          lat2Rad = toRadians lat2;
          y = sin dLon * cos lat2Rad;
          x = cos lat1Rad * sin lat2Rad - sin lat1Rad * cos lat2Rad * cos dLon;
          bearing = js_mod (atan2 y x * 180 / pi + 360) 360;
          index = js_mod (of_int (js_round (bearing / 45))) 8
      in compassNames ! nat \<lfloor>index\<rfloor>)"

text \<open>The distance between two nodes, as every call site computes it.\<close>

definition nodeDistance :: "GraphNode \<Rightarrow> GraphNode \<Rightarrow> real" where
  "nodeDistance n1 n2 = calculateDistance (lat n1) (lng n1) (lat n2) (lng n2)"

subsection \<open>Graph synthesis\<close>

definition sourceNode :: "Location \<Rightarrow> GraphNode" where
  "sourceNode source =
     \<lparr>lat = lat source, lng = lng source, name = name source, category = category source,
      node_id = ''source''\<rparr>"

definition destNode :: "Location \<Rightarrow> GraphNode" where
  "destNode destination =
     \<lparr>lat = lat destination, lng = lng destination, name = name destination,
      category = category destination, node_id = ''destination''\<rparr>"

definition numWaypointsOf :: "real \<Rightarrow> nat" where
  "numWaypointsOf d = nat (min (max \<lfloor>d / 100\<rfloor> 2) 8)"

text \<open>The body of the waypoint loop at index \<open>i\<close>; it is the \<open>i\<close>-th call of
  \<^verbatim>\<open>Math.random()\<close>, so it reads \<open>rnd (i - 1)\<close>.\<close>

definition waypoint :: "Location \<Rightarrow> Location \<Rightarrow> nat \<Rightarrow> (nat \<Rightarrow> real) \<Rightarrow> nat \<Rightarrow> GraphNode" where
  "waypoint source destination numWaypoints rnd i =
     (let ratio = real i / real numWaypoints;
          la = lat source + (lat destination - lat source) * ratio;
          ln = lng source + (lng destination - lng source) * ratio;
          variation = 0.01 * (rnd (i - 1) - 0.5)
      in \<lparr>lat = la + variation, lng = ln + variation,
          name = ''Waypoint '' @ string_of_nat i, category = Some ''waypoint'',
          node_id = ''waypoint_'' @ string_of_nat i\<rparr>)"

definition graphNodes :: "Location \<Rightarrow> Location \<Rightarrow> (nat \<Rightarrow> real) \<Rightarrow> GraphNode list" where
  "graphNodes source destination rnd =
     (let d = calculateDistance (lat source) (lng source) (lat destination) (lng destination);
          numWaypoints = numWaypointsOf d
      in sourceNode source # destNode destination #
         map (waypoint source destination numWaypoints rnd) [1..<numWaypoints])"

text \<open>The pairs \<open>(nodes[i], nodes[j])\<close>, \<open>i < j\<close>, in the order of the two nested loops.\<close>

fun allPairs :: "'a list \<Rightarrow> ('a \<times> 'a) list" where
  "allPairs [] = []"
| "allPairs (x # xs) = map (Pair x) xs @ allPairs xs"

text \<open>The body of the inner edge loop; \<open>r\<close> is the result of \<^verbatim>\<open>Math.random()\<close>, which
  is called in the \<^verbatim>\<open>'safest'\<close> branch only.\<close>

definition makeEdge :: "RouteType \<Rightarrow> real \<Rightarrow> GraphNode \<Rightarrow> GraphNode \<Rightarrow> GraphEdge" where
  "makeEdge routeType r node1 node2 =
     (let d = nodeDistance node1 node2;
          w = (if routeType = Safest
               then (let safetyFactor = 0.8 + r * 0.4 in d * (2 - safetyFactor))
               else d)
      in \<lparr>from_id = node_id node1, to_id = node_id node2, weight = w, distance = d\<rparr>)"

text \<open>The edge loop: the \<open>k\<close>-th edge is made after the \<open>length nodes - 2\<close> calls of
  \<^verbatim>\<open>Math.random()\<close> for the waypoints and the \<open>k\<close> calls for the edges before it.\<close>

definition graphEdges :: "RouteType \<Rightarrow> (nat \<Rightarrow> real) \<Rightarrow> GraphNode list \<Rightarrow> GraphEdge list" where
  "graphEdges routeType rnd nodes =
     map (\<lambda>(k, (node1, node2)). makeEdge routeType (rnd (length nodes - 2 + k)) node1 node2)
       (enumerate 0 (allPairs nodes))"

definition generateGraph ::
  "Location \<Rightarrow> Location \<Rightarrow> RouteType \<Rightarrow> (nat \<Rightarrow> real) \<Rightarrow> GraphNode list \<times> GraphEdge list" where
  "generateGraph source destination routeType rnd =
     (let nodes = graphNodes source destination rnd
      in (nodes, graphEdges routeType rnd nodes))"

subsection \<open>Adjacency list\<close>

record Neighbor =
  nodeId :: string
  nb_weight :: real
  nb_distance :: real

type_synonym Adjacency = "string \<rightharpoonup> Neighbor list"

text \<open>\<^verbatim>\<open>graph.get(k)?.push(x)\<close>: nothing happens when the key is absent.\<close>

definition pushNeighbor :: "Adjacency \<Rightarrow> string \<Rightarrow> Neighbor \<Rightarrow> Adjacency" where
  "pushNeighbor graph k x = (case graph k of None \<Rightarrow> graph | Some l \<Rightarrow> graph(k \<mapsto> l @ [x]))"

definition addEdge :: "Adjacency \<Rightarrow> GraphEdge \<Rightarrow> Adjacency" where
  "addEdge graph edge =
     pushNeighbor
       (pushNeighbor graph (from_id edge)
          \<lparr>nodeId = to_id edge, nb_weight = weight edge, nb_distance = distance edge\<rparr>)
       (to_id edge)
       \<lparr>nodeId = from_id edge, nb_weight = weight edge, nb_distance = distance edge\<rparr>"

definition buildGraph :: "GraphNode list \<Rightarrow> GraphEdge list \<Rightarrow> Adjacency" where
  "buildGraph nodes edges =
     foldl addEdge (foldl (\<lambda>graph node. graph(node_id node \<mapsto> [])) Map.empty nodes) edges"

text \<open>\<^verbatim>\<open>graph.get(currentNodeId) || []\<close>\<close>

definition neighborsOf :: "Adjacency \<Rightarrow> string \<Rightarrow> Neighbor list" where
  "neighborsOf graph k = (case graph k of None \<Rightarrow> [] | Some l \<Rightarrow> l)"

subsection \<open>Priority queue\<close>

type_synonym PriorityQueue = "(string \<times> real) list"

text \<open>\<^verbatim>\<open>push\<close>, then \<^verbatim>\<open>sort\<close> by priority; \<^verbatim>\<open>Array.prototype.sort\<close> is stable, and so is
  \<open>sort_key\<close>.\<close>

definition enqueue :: "string \<Rightarrow> real \<Rightarrow> PriorityQueue \<Rightarrow> PriorityQueue" where
  "enqueue element priority items = sort_key snd (items @ [(element, priority)])"

subsection \<open>Dijkstra's algorithm\<close>

record SolverState =
  distances :: "string \<rightharpoonup> jsnum"
  previous :: "string \<rightharpoonup> string option"
  pq :: PriorityQueue

definition initState :: "GraphNode list \<Rightarrow> SolverState" where
  "initState nodes =
     \<lparr>distances =
        foldl (\<lambda>m node. m(node_id node \<mapsto> (if node_id node = ''source'' then Num 0 else Infinity)))
          Map.empty nodes,
      previous = foldl (\<lambda>m node. m(node_id node \<mapsto> None)) Map.empty nodes,
      pq = enqueue ''source'' 0 []\<rparr>"

text \<open>
  The body of the loop over the neighbours. \<open>altDistance\<close> is compared with \<^verbatim>\<open><\<close>, which
  is false for an infinite \<open>altDistance\<close>, so what is stored and enqueued is finite.
\<close>

definition relax :: "string \<Rightarrow> SolverState \<Rightarrow> Neighbor \<Rightarrow> SolverState" where
  "relax currentNodeId st neighbor =
     (let altDistance = js_plus (orZero (distances st currentNodeId)) (nb_weight neighbor)
      in if js_less altDistance (orInfinity (distances st (nodeId neighbor)))
         then (case altDistance of
                 Num alt \<Rightarrow>
                   \<lparr>distances = (distances st)(nodeId neighbor \<mapsto> Num alt),
                    previous = (previous st)(nodeId neighbor \<mapsto> Some currentNodeId),
                    pq = enqueue (nodeId neighbor) alt (pq st)\<rparr>
               | Infinity \<Rightarrow> st)
         else st)"

definition relaxAll :: "Adjacency \<Rightarrow> string \<Rightarrow> SolverState \<Rightarrow> SolverState" where
  "relaxAll graph currentNodeId st = foldl (relax currentNodeId) st (neighborsOf graph currentNodeId)"

text \<open>The \<^verbatim>\<open>while (!pq.isEmpty())\<close> loop, with its two \<^verbatim>\<open>break\<close>s: on a falsy (empty)
  id and on \<^verbatim>\<open>'destination'\<close>.\<close>

partial_function (option) dijkstraLoop :: "Adjacency \<Rightarrow> SolverState \<Rightarrow> SolverState option" where
  "dijkstraLoop graph st =
     (case pq st of
        [] \<Rightarrow> Some st
      | item # items \<Rightarrow>
          if fst item = [] then Some (st\<lparr>pq := items\<rparr>)
          else if fst item = ''destination'' then Some (st\<lparr>pq := items\<rparr>)
          else dijkstraLoop graph (relaxAll graph (fst item) (st\<lparr>pq := items\<rparr>)))"

subsection \<open>Path reconstruction\<close>

text \<open>\<^verbatim>\<open>previous.get(currentId) || null\<close>: \<^verbatim>\<open>undefined\<close>, \<^verbatim>\<open>null\<close> and the empty string
  are falsy.\<close>

definition nextId :: "(string \<rightharpoonup> string option) \<Rightarrow> string \<Rightarrow> string option" where
  "nextId prev currentId =
     (case prev currentId of
        Some (Some p) \<Rightarrow> if p = [] then None else Some p
      | _ \<Rightarrow> None)"

text \<open>\<^verbatim>\<open>const node = nodes.find(n => n.id === currentId); if (node) path.unshift(node)\<close>\<close>

definition unshiftNode :: "GraphNode list \<Rightarrow> string \<Rightarrow> GraphNode list \<Rightarrow> GraphNode list" where
  "unshiftNode nodes currentId p =
     (case find (\<lambda>n. node_id n = currentId) nodes of None \<Rightarrow> p | Some node \<Rightarrow> node # p)"

text \<open>The \<^verbatim>\<open>while (currentId !== null)\<close> loop, entered with a non-null \<open>currentId\<close>.\<close>

partial_function (option) reconstruct ::
  "GraphNode list \<Rightarrow> (string \<rightharpoonup> string option) \<Rightarrow> string \<Rightarrow> GraphNode list \<Rightarrow> GraphNode list option" where
  "reconstruct nodes prev currentId p =
     (case nextId prev currentId of
        None \<Rightarrow> Some (unshiftNode nodes currentId p)
      | Some next \<Rightarrow> reconstruct nodes prev next (unshiftNode nodes currentId p))"

subsection \<open>Totals and directions\<close>

text \<open>The loop \<^verbatim>\<open>for (i = 0; i < path.length - 1; i++) totalDistance += ...\<close>; for an
  empty path \<^verbatim>\<open>path.length - 1\<close> is \<open>-1\<close> and the loop body never runs.\<close>

definition sumDistance :: "GraphNode list \<Rightarrow> real" where
  "sumDistance p =
     foldl (\<lambda>total i. total + nodeDistance (p ! i) (p ! (i + 1))) 0 [0..<length p - 1]"

definition makeDirection :: "GraphNode list \<Rightarrow> nat \<Rightarrow> Direction" where
  "makeDirection p i =
     (let current = p ! i;
          next = p ! (i + 1);
          d = nodeDistance current next;
          bearing = calculateBearing (lat current) (lng current) (lat next) (lng next);
          instr = (if i = 0 then ''Start your journey from '' @ name current
                   else if int i = int (length p) - 2 then ''Arrive at '' @ name next
                   else ''Continue '' @ toLowerCase bearing @ '' towards '' @ name next)
      in \<lparr>instruction = instr, leg_distance = of_int (js_round (d * 10)) / 10,
          direction = bearing\<rparr>)"

definition makeDirections :: "GraphNode list \<Rightarrow> Direction list" where
  "makeDirections p = map (makeDirection p) [0..<length p - 1]"

definition makeResult :: "GraphNode list \<Rightarrow> RouteResult" where
  "makeResult p =
     (let total = sumDistance p
      in \<lparr>path = p,
          totalDistance = of_int (js_round (total * 10)) / 10,
          totalTime = js_round (total * 1.2),
          algorithm = ''Dijkstra's'',
          directions = makeDirections p\<rparr>)"

subsection \<open>The route computation\<close>

text \<open>\<^verbatim>\<open>findShortestPath\<close> from its second statement on, for the graph that the first
  statement made.\<close>

definition findShortestPathOn :: "GraphNode list \<Rightarrow> GraphEdge list \<Rightarrow> RouteResult option" where
  "findShortestPathOn nodes edges =
     (case dijkstraLoop (buildGraph nodes edges) (initState nodes) of
        None \<Rightarrow> None
      | Some st \<Rightarrow>
          (case reconstruct nodes (previous st) ''destination'' [] of
             None \<Rightarrow> None
           | Some p \<Rightarrow> Some (makeResult p)))"

definition findShortestPath ::
  "Location \<Rightarrow> Location \<Rightarrow> RouteType \<Rightarrow> (nat \<Rightarrow> real) \<Rightarrow> RouteResult option" where
  "findShortestPath source destination routeType rnd =
     (case generateGraph source destination routeType rnd of
        (nodes, edges) \<Rightarrow> findShortestPathOn nodes edges)"

section \<open>The route computation in binary64 arithmetic\<close>

text \<open>
  The same code once more, now with the arithmetic of the machine: every arithmetic
  operation returns its exact result rounded to the nearest number of 53 significant
  bits, ties to the even one. This is where \<^verbatim>\<open>NaN\<close> comes from: the argument of
  \<^verbatim>\<open>Math.sqrt(1 - a)\<close> in \<^verbatim>\<open>calculateDistance\<close> is never negative in exact arithmetic
  and can be negative after rounding. The definitions carry the names of the source with
  the suffix 64; those of the first section that do no arithmetic are used as they are.

  Numbers beyond the largest finite one are not modelled (there is no overflow to an
  infinity) and zero has no sign; coordinates in degrees come near neither. \<^verbatim>\<open>Math.sin\<close>, \<^verbatim>\<open>Math.cos\<close>
  and \<^verbatim>\<open>Math.atan2\<close> are the correctly rounded functions, as \<^verbatim>\<open>Math.sqrt\<close> is by the
  IEEE standard; ECMAScript leaves their last bit to the implementation, and at the
  arguments that are evaluated below the correctly rounded values are those of fdlibm.
  Coordinates and the results of \<^verbatim>\<open>Math.random()\<close> are taken to be binary64 numbers.
\<close>

subsection \<open>Numbers\<close>

text \<open>Rounding to the nearest integer, ties to even.\<close>

definition roundEven :: "real \<Rightarrow> int" where
  "roundEven x =
     (let f = \<lfloor>x\<rfloor>; r = x - of_int f
      in if r < 1 / 2 then f else if 1 / 2 < r then f + 1 else if even f then f else f + 1)"

text \<open>Rounding to binary64: a number between \<open>2 ^ e\<close> and \<open>2 ^ (e + 1)\<close> in absolute
  value is rounded to a multiple of \<open>2 ^ (e - 52)\<close>, and a number below \<open>2 ^ -1022\<close> to a
  multiple of \<open>2 ^ -1074\<close>.\<close>

definition fl :: "real \<Rightarrow> real" where
  "fl x =
     (if x = 0 then 0
      else (let e = max \<lfloor>log 2 \<bar>x\<bar>\<rfloor> (- 1022);
                q = 2 powr (of_int e - 52)
            in of_int (roundEven (x / q)) * q))"

text \<open>A finite binary64 number or \<^verbatim>\<open>NaN\<close>; every operation on \<^verbatim>\<open>NaN\<close> gives \<^verbatim>\<open>NaN\<close>.\<close>

datatype double = Fin real | NaN

fun fmap :: "(real \<Rightarrow> real) \<Rightarrow> double \<Rightarrow> double" where
  "fmap f (Fin a) = Fin (f a)"
| "fmap f NaN = NaN"

fun fadd :: "double \<Rightarrow> double \<Rightarrow> double" where
  "fadd (Fin a) (Fin b) = Fin (fl (a + b))"
| "fadd a b = NaN"

fun fmul :: "double \<Rightarrow> double \<Rightarrow> double" where
  "fmul (Fin a) (Fin b) = Fin (fl (a * b))"
| "fmul a b = NaN"

text \<open>\<^verbatim>\<open>Math.PI\<close> is the binary64 number nearest to \<open>\<pi>\<close>.\<close>

definition Math_PI :: real where
  "Math_PI = 884279719003555 / 2 ^ 48"

definition sin64 :: "real \<Rightarrow> real" where
  "sin64 x = fl (sin x)"

definition cos64 :: "real \<Rightarrow> real" where
  "cos64 x = fl (cos x)"

text \<open>\<^verbatim>\<open>Math.sqrt\<close> of a negative number is \<^verbatim>\<open>NaN\<close>.\<close>

definition sqrt64 :: "real \<Rightarrow> double" where
  "sqrt64 x = (if x < 0 then NaN else Fin (fl (sqrt x)))"

fun atan2_64 :: "double \<Rightarrow> double \<Rightarrow> double" where
  "atan2_64 (Fin y) (Fin x) = Fin (fl (atan2 y x))"
| "atan2_64 y x = NaN"

subsection \<open>Geo-math\<close>

definition toRadians64 :: "real \<Rightarrow> real" where
  "toRadians64 degrees = fl (degrees * fl (Math_PI / 180))"

definition calculateDistance64 :: "real \<Rightarrow> real \<Rightarrow> real \<Rightarrow> real \<Rightarrow> double" where
  "calculateDistance64 lat1 lon1 lat2 lon2 =
     (let R = 6371;
          dLat = toRadians64 (fl (lat2 - lat1));
          dLon = toRadians64 (fl (lon2 - lon1));
          a = fl (fl (sin64 (fl (dLat / 2)) * sin64 (fl (dLat / 2))) +
                  fl (fl (fl (cos64 (toRadians64 lat1) * cos64 (toRadians64 lat2)) *
                          sin64 (fl (dLon / 2))) * sin64 (fl (dLon / 2))));
          c = fmul (Fin 2) (atan2_64 (sqrt64 a) (sqrt64 (fl (1 - a))))
      in fmul (Fin R) c)"

definition calculateBearing64 :: "real \<Rightarrow> real \<Rightarrow> real \<Rightarrow> real \<Rightarrow> string" where
  "calculateBearing64 lat1 lon1 lat2 lon2 =
     (let dLon = toRadians64 (fl (lon2 - lon1));
          lat1Rad = toRadians64 lat1;
          lat2Rad = toRadians64 lat2;
          y = fl (sin64 dLon * cos64 lat2Rad);
          x = fl (fl (cos64 lat1Rad * sin64 lat2Rad) -
                  fl (fl (sin64 lat1Rad * cos64 lat2Rad) * cos64 dLon));
          bearing = js_mod (fl (fl (fl (fl (atan2 y x) * 180) / Math_PI) + 360)) 360;
          index = js_mod (of_int (js_round (fl (bearing / 45)))) 8
      in compassNames ! nat \<lfloor>index\<rfloor>)"

definition nodeDistance64 :: "GraphNode \<Rightarrow> GraphNode \<Rightarrow> double" where
  "nodeDistance64 n1 n2 = calculateDistance64 (lat n1) (lng n1) (lat n2) (lng n2)"

subsection \<open>Graph synthesis\<close>

record GraphEdge64 =
  from64 :: string
  to64 :: string
  weight64 :: double
  distance64 :: double

text \<open>\<^verbatim>\<open>Math.min(Math.max(Math.floor(distance / 100), 2), 8)\<close>\<close>

definition numWaypointsOf64 :: "double \<Rightarrow> double" where
  "numWaypointsOf64 d = fmap (\<lambda>x. of_int (min (max \<lfloor>fl (x / 100)\<rfloor> 2) 8)) d"

definition waypoint64 :: "Location \<Rightarrow> Location \<Rightarrow> real \<Rightarrow> (nat \<Rightarrow> real) \<Rightarrow> nat \<Rightarrow> GraphNode" where
  "waypoint64 source destination numWaypoints rnd i =
     (let ratio = fl (real i / numWaypoints);
          la = fl (lat source + fl (fl (lat destination - lat source) * ratio));
          ln = fl (lng source + fl (fl (lng destination - lng source) * ratio));
          variation = fl (fl (1 / 100) * fl (rnd (i - 1) - 1 / 2))
      in \<lparr>lat = fl (la + variation), lng = fl (ln + variation),
          name = ''Waypoint '' @ string_of_nat i, category = Some ''waypoint'',
          node_id = ''waypoint_'' @ string_of_nat i\<rparr>)"

text \<open>The waypoint loop \<^verbatim>\<open>for (let i = 1; i < numWaypoints; i++)\<close>: the comparison
  \<^verbatim>\<open>i < NaN\<close> is false, so for \<^verbatim>\<open>NaN\<close> the body never runs.\<close>

definition graphNodes64 :: "Location \<Rightarrow> Location \<Rightarrow> (nat \<Rightarrow> real) \<Rightarrow> GraphNode list" where
  "graphNodes64 source destination rnd =
     (let d = calculateDistance64 (lat source) (lng source) (lat destination) (lng destination);
          numWaypoints = numWaypointsOf64 d
      in sourceNode source # destNode destination #
         (case numWaypoints of
            NaN \<Rightarrow> []
          | Fin n \<Rightarrow> map (waypoint64 source destination n rnd) [1..<nat \<lceil>n\<rceil>]))"

definition makeEdge64 :: "RouteType \<Rightarrow> real \<Rightarrow> GraphNode \<Rightarrow> GraphNode \<Rightarrow> GraphEdge64" where
  "makeEdge64 routeType r node1 node2 =
     (let d = nodeDistance64 node1 node2;
          w = (if routeType = Safest
               then (let safetyFactor = fl (fl (8 / 10) + fl (r * fl (4 / 10)))
                     in fmul d (Fin (fl (2 - safetyFactor))))
               else d)
      in \<lparr>from64 = node_id node1, to64 = node_id node2, weight64 = w, distance64 = d\<rparr>)"

definition graphEdges64 :: "RouteType \<Rightarrow> (nat \<Rightarrow> real) \<Rightarrow> GraphNode list \<Rightarrow> GraphEdge64 list" where
  "graphEdges64 routeType rnd nodes =
     map (\<lambda>(k, (node1, node2)). makeEdge64 routeType (rnd (length nodes - 2 + k)) node1 node2)
       (enumerate 0 (allPairs nodes))"

definition generateGraph64 ::
  "Location \<Rightarrow> Location \<Rightarrow> RouteType \<Rightarrow> (nat \<Rightarrow> real) \<Rightarrow> GraphNode list \<times> GraphEdge64 list" where
  "generateGraph64 source destination routeType rnd =
     (let nodes = graphNodes64 source destination rnd
      in (nodes, graphEdges64 routeType rnd nodes))"

subsection \<open>Adjacency list\<close>

record Neighbor64 =
  nodeId64 :: string
  nb_weight64 :: double
  nb_distance64 :: double

type_synonym Adjacency64 = "string \<rightharpoonup> Neighbor64 list"

definition pushNeighbor64 :: "Adjacency64 \<Rightarrow> string \<Rightarrow> Neighbor64 \<Rightarrow> Adjacency64" where
  "pushNeighbor64 graph k x = (case graph k of None \<Rightarrow> graph | Some l \<Rightarrow> graph(k \<mapsto> l @ [x]))"

definition addEdge64 :: "Adjacency64 \<Rightarrow> GraphEdge64 \<Rightarrow> Adjacency64" where
  "addEdge64 graph edge =
     pushNeighbor64
       (pushNeighbor64 graph (from64 edge)
          \<lparr>nodeId64 = to64 edge, nb_weight64 = weight64 edge, nb_distance64 = distance64 edge\<rparr>)
       (to64 edge)
       \<lparr>nodeId64 = from64 edge, nb_weight64 = weight64 edge, nb_distance64 = distance64 edge\<rparr>"

definition buildGraph64 :: "GraphNode list \<Rightarrow> GraphEdge64 list \<Rightarrow> Adjacency64" where
  "buildGraph64 nodes edges =
     foldl addEdge64 (foldl (\<lambda>graph node. graph(node_id node \<mapsto> [])) Map.empty nodes) edges"

definition neighborsOf64 :: "Adjacency64 \<Rightarrow> string \<Rightarrow> Neighbor64 list" where
  "neighborsOf64 graph k = (case graph k of None \<Rightarrow> [] | Some l \<Rightarrow> l)"

subsection \<open>Dijkstra's algorithm\<close>

text \<open>
  The body of the loop over the neighbours. \<open>altDistance\<close> is \<^verbatim>\<open>NaN\<close> when the weight
  is, and infinite when the distance of the current node is; the comparison \<^verbatim>\<open><\<close> is
  then false and nothing is stored.
\<close>

definition relax64 :: "string \<Rightarrow> SolverState \<Rightarrow> Neighbor64 \<Rightarrow> SolverState" where
  "relax64 currentNodeId st neighbor =
     (case (orZero (distances st currentNodeId), nb_weight64 neighbor) of
        (Num d, Fin w) \<Rightarrow>
          (let altDistance = fl (d + w)
           in if js_less (Num altDistance) (orInfinity (distances st (nodeId64 neighbor)))
              then \<lparr>distances = (distances st)(nodeId64 neighbor \<mapsto> Num altDistance),
                    previous = (previous st)(nodeId64 neighbor \<mapsto> Some currentNodeId),
                    pq = enqueue (nodeId64 neighbor) altDistance (pq st)\<rparr>
              else st)
      | _ \<Rightarrow> st)"

definition relaxAll64 :: "Adjacency64 \<Rightarrow> string \<Rightarrow> SolverState \<Rightarrow> SolverState" where
  "relaxAll64 graph currentNodeId st =
     foldl (relax64 currentNodeId) st (neighborsOf64 graph currentNodeId)"

partial_function (option) dijkstraLoop64 :: "Adjacency64 \<Rightarrow> SolverState \<Rightarrow> SolverState option" where
  "dijkstraLoop64 graph st =
     (case pq st of
        [] \<Rightarrow> Some st
      | item # items \<Rightarrow>
          if fst item = [] then Some (st\<lparr>pq := items\<rparr>)
          else if fst item = ''destination'' then Some (st\<lparr>pq := items\<rparr>)
          else dijkstraLoop64 graph (relaxAll64 graph (fst item) (st\<lparr>pq := items\<rparr>)))"

subsection \<open>Totals and directions\<close>

record Direction64 =
  instruction64 :: string
  leg_distance64 :: double
  direction64 :: string

text \<open>\<open>totalDistance64\<close> and \<open>totalTime64\<close> hold the numbers that the source prints into
  its two strings.\<close>

record RouteResult64 =
  path64 :: "GraphNode list"
  totalDistance64 :: double
  totalTime64 :: double
  algorithm64 :: string
  directions64 :: "Direction64 list"

definition sumDistance64 :: "GraphNode list \<Rightarrow> double" where
  "sumDistance64 p =
     foldl (\<lambda>total i. fadd total (nodeDistance64 (p ! i) (p ! (i + 1)))) (Fin 0) [0..<length p - 1]"

text \<open>\<^verbatim>\<open>Math.round(x * 10) / 10\<close>\<close>

definition roundTenth :: "real \<Rightarrow> real" where
  "roundTenth x = fl (of_int (js_round (fl (x * 10))) / 10)"

definition makeDirection64 :: "GraphNode list \<Rightarrow> nat \<Rightarrow> Direction64" where
  "makeDirection64 p i =
     (let current = p ! i;
          next = p ! (i + 1);
          d = nodeDistance64 current next;
          bearing = calculateBearing64 (lat current) (lng current) (lat next) (lng next);
          instr = (if i = 0 then ''Start your journey from '' @ name current
                   else if int i = int (length p) - 2 then ''Arrive at '' @ name next
                   else ''Continue '' @ toLowerCase bearing @ '' towards '' @ name next)
      in \<lparr>instruction64 = instr, leg_distance64 = fmap roundTenth d, direction64 = bearing\<rparr>)"

definition makeDirections64 :: "GraphNode list \<Rightarrow> Direction64 list" where
  "makeDirections64 p = map (makeDirection64 p) [0..<length p - 1]"

definition makeResult64 :: "GraphNode list \<Rightarrow> RouteResult64" where
  "makeResult64 p =
     (let total = sumDistance64 p
      in \<lparr>path64 = p,
          totalDistance64 = fmap roundTenth total,
          totalTime64 = fmap (\<lambda>t. of_int (js_round (fl (t * fl (12 / 10))))) total,
          algorithm64 = ''Dijkstra's'',
          directions64 = makeDirections64 p\<rparr>)"

subsection \<open>The route computation\<close>

definition findShortestPathOn64 :: "GraphNode list \<Rightarrow> GraphEdge64 list \<Rightarrow> RouteResult64 option" where
  "findShortestPathOn64 nodes edges =
     (case dijkstraLoop64 (buildGraph64 nodes edges) (initState nodes) of
        None \<Rightarrow> None
      | Some st \<Rightarrow>
          (case reconstruct nodes (previous st) ''destination'' [] of
             None \<Rightarrow> None
           | Some p \<Rightarrow> Some (makeResult64 p)))"

definition findShortestPath64 ::
  "Location \<Rightarrow> Location \<Rightarrow> RouteType \<Rightarrow> (nat \<Rightarrow> real) \<Rightarrow> RouteResult64 option" where
  "findShortestPath64 source destination routeType rnd =
     (case generateGraph64 source destination routeType rnd of
        (nodes, edges) \<Rightarrow> findShortestPathOn64 nodes edges)"

declare string_of_nat.simps [simp del]

section \<open>Definitions used in the proofs\<close>

subsection \<open>Spherical geometry\<close>

text \<open>The term \<open>a\<close> of \<open>calculateDistance\<close>, and the cosine of the central angle between
  two points.\<close>

definition haversine :: "real \<Rightarrow> real \<Rightarrow> real \<Rightarrow> real \<Rightarrow> real" where
  "haversine lat1 lon1 lat2 lon2 =
     sin (toRadians (lat2 - lat1) / 2) * sin (toRadians (lat2 - lat1) / 2) +
     cos (toRadians lat1) * cos (toRadians lat2) *
     sin (toRadians (lon2 - lon1) / 2) * sin (toRadians (lon2 - lon1) / 2)"

definition cosAngle :: "real \<Rightarrow> real \<Rightarrow> real \<Rightarrow> real \<Rightarrow> real" where
  "cosAngle lat1 lon1 lat2 lon2 =
     sin (toRadians lat1) * sin (toRadians lat2) +
     cos (toRadians lat1) * cos (toRadians lat2) * cos (toRadians (lon2 - lon1))"

subsection \<open>The adjacency list of a synthesized graph\<close>

text \<open>What one edge appends to the neighbour list of the key \<open>k\<close>.\<close>

definition entriesFor :: "string \<Rightarrow> GraphEdge \<Rightarrow> Neighbor list" where
  "entriesFor k e =
     (if from_id e = k then [\<lparr>nodeId = to_id e, nb_weight = weight e, nb_distance = distance e\<rparr>] else []) @
     (if to_id e = k then [\<lparr>nodeId = from_id e, nb_weight = weight e, nb_distance = distance e\<rparr>] else [])"

definition toEntry :: "GraphEdge \<Rightarrow> Neighbor" where
  "toEntry e = \<lparr>nodeId = to_id e, nb_weight = weight e, nb_distance = distance e\<rparr>"

definition wellFormed :: "string set \<Rightarrow> Adjacency \<Rightarrow> bool" where
  "wellFormed ids graph = (\<forall>k. nodeId ` set (neighborsOf graph k) \<subseteq> ids)"

text \<open>The facts about the adjacency list that the analysis of the solver needs: every
  neighbour is a node, no id is the empty string, \<^verbatim>\<open>'source'\<close> is a neighbour of every
  other node, and its own neighbours are all the other nodes.\<close>

definition graphOK :: "string set \<Rightarrow> Adjacency \<Rightarrow> bool" where
  "graphOK ids graph =
     (''source'' \<in> ids \<and> [] \<notin> ids \<and> wellFormed ids graph \<and>
      (\<forall>w\<in>ids. w \<noteq> ''source'' \<longrightarrow> ''source'' \<in> nodeId ` set (neighborsOf graph w)) \<and>
      nodeId ` set (neighborsOf graph ''source'') = ids - {''source''})"

subsection \<open>States of the solver\<close>

text \<open>A predecessor table in which every node has a predecessor that is a node: the
  backward walk of the reconstruction never reaches \<^verbatim>\<open>null\<close> in it.\<close>

definition closedPrev :: "string set \<Rightarrow> (string \<rightharpoonup> string option) \<Rightarrow> bool" where
  "closedPrev ids prev = (\<forall>x\<in>ids. \<exists>p\<in>ids. prev x = Some (Some p))"

definition cyclic :: "string set \<Rightarrow> SolverState \<Rightarrow> bool" where
  "cyclic ids st = (closedPrev ids (previous st) \<and> (\<forall>e\<in>set (pq st). fst e \<in> ids))"

text \<open>A node relaxed from \<^verbatim>\<open>'source'\<close>, and a node not relaxed yet.\<close>

definition reached :: "SolverState \<Rightarrow> string \<Rightarrow> bool" where
  "reached st x = (previous st x = Some (Some ''source'') \<and> (\<exists>v. distances st x = Some (Num v)))"

definition untouched :: "SolverState \<Rightarrow> string \<Rightarrow> bool" where
  "untouched st x = (previous st x = Some None \<and> distances st x = Some Infinity)"

definition sourceFree :: "string set \<Rightarrow> SolverState \<Rightarrow> bool" where
  "sourceFree ids st =
     (distances st ''source'' = Some (Num 0) \<and> previous st ''source'' = Some None \<and>
      (\<forall>e\<in>set (pq st). fst e \<in> ids \<and> fst e \<noteq> ''source''))"

text \<open>The states during the first iteration of the loop (\<^verbatim>\<open>'source'\<close> is the current
  node), and the state after it.\<close>

definition starting :: "string set \<Rightarrow> SolverState \<Rightarrow> bool" where
  "starting ids st =
     (sourceFree ids st \<and> (\<forall>x\<in>ids. x \<noteq> ''source'' \<longrightarrow> untouched st x \<or> reached st x))"

definition fresh :: "string set \<Rightarrow> SolverState \<Rightarrow> bool" where
  "fresh ids st = (sourceFree ids st \<and> (\<forall>x\<in>ids. x \<noteq> ''source'' \<longrightarrow> reached st x))"

text \<open>The states while a node \<open>cur\<close> other than \<^verbatim>\<open>'source'\<close> is the current node.\<close>

definition relaxing :: "string set \<Rightarrow> string \<Rightarrow> SolverState \<Rightarrow> bool" where
  "relaxing ids cur st =
     ((\<forall>x\<in>ids. x \<noteq> ''source'' \<longrightarrow> (\<exists>p\<in>ids. previous st x = Some (Some p))) \<and>
      (\<forall>e\<in>set (pq st). fst e \<in> ids) \<and>
      (\<exists>v. distances st cur = Some (Num v)) \<and>
      (previous st ''source'' = Some None \<and> distances st ''source'' = Some (Num 0) \<or>
       (\<exists>p\<in>ids. previous st ''source'' = Some (Some p))))"

definition sourceLinked :: "string set \<Rightarrow> SolverState \<Rightarrow> bool" where
  "sourceLinked ids st = (\<exists>p\<in>ids. previous st ''source'' = Some (Some p))"

definition enqueueAll :: "PriorityQueue \<Rightarrow> Neighbor list \<Rightarrow> PriorityQueue" where
  "enqueueAll q l = foldl (\<lambda>q nb. enqueue (nodeId nb) (nb_weight nb) q) q l"

subsection \<open>When the computation returns\<close>

text \<open>The edges out of \<^verbatim>\<open>'source'\<close> are the first \<open>length nodes - 1\<close> edges of the edge
  list, and the first of them is the edge to \<^verbatim>\<open>'destination'\<close>. The predicate says that no
  edge from \<^verbatim>\<open>'source'\<close> to a waypoint is lighter than the direct edge.\<close>

definition directEdgeLightest :: "Location \<Rightarrow> Location \<Rightarrow> RouteType \<Rightarrow> (nat \<Rightarrow> real) \<Rightarrow> bool" where
  "directEdgeLightest s d rt rnd =
     (case generateGraph s d rt rnd of
        (nodes, edges) \<Rightarrow> \<forall>e\<in>set (take (length nodes - 1) edges). weight (hd edges) \<le> weight e)"

subsection \<open>The great-circle distance of the specification\<close>

text \<open>
  The distance that the specification compares the reported total with, stated without
  \<open>calculateDistance\<close>: a point of latitude \<open>la\<close> and longitude \<open>lo\<close> (in degrees) has a
  position on the unit sphere, two positions enclose an angle at the centre, and the
  great-circle distance on the sphere of radius 6371 km is the radius times that angle.
\<close>

definition position :: "real \<Rightarrow> real \<Rightarrow> real \<times> real \<times> real" where
  "position la lo =
     (cos (la * pi / 180) * cos (lo * pi / 180),
      cos (la * pi / 180) * sin (lo * pi / 180),
      sin (la * pi / 180))"

fun angleBetween :: "real \<times> real \<times> real \<Rightarrow> real \<times> real \<times> real \<Rightarrow> real" where
  "angleBetween (u1, u2, u3) (v1, v2, v3) = arccos (u1 * v1 + u2 * v2 + u3 * v3)"

definition greatCircleKm :: "GraphNode \<Rightarrow> GraphNode \<Rightarrow> real" where
  "greatCircleKm m n = 6371 * angleBetween (position (lat m) (lng m)) (position (lat n) (lng n))"

definition greatCircleSum :: "GraphNode list \<Rightarrow> real" where
  "greatCircleSum p = (\<Sum>i<length p - 1. greatCircleKm (p ! i) (p ! (i + 1)))"

text \<open>The sum of the distances between consecutive path nodes as \<open>calculateDistance\<close>
  computes them.\<close>

definition legSum :: "GraphNode list \<Rightarrow> real" where
  "legSum p = (\<Sum>i<length p - 1. nodeDistance (p ! i) (p ! (i + 1)))"

subsection \<open>Concrete inputs\<close>

definition origin :: Location where
  "origin = \<lparr>lat = 0, lng = 0, name = ''A'', category = None\<rparr>"

definition east2 :: Location where
  "east2 = \<lparr>lat = 0, lng = 2, name = ''B'', category = None\<rparr>"

definition nearby :: Location where
  "nearby = \<lparr>lat = 0, lng = 1 / 1000, name = ''C'', category = None\<rparr>"

text \<open>Runs in which every call of \<^verbatim>\<open>Math.random()\<close> returns 0, and runs in which every call returns 1/2.\<close>

definition zeroDraws :: "nat \<Rightarrow> real" where
  "zeroDraws k = 0"

definition halfDraws :: "nat \<Rightarrow> real" where
  "halfDraws k = 1 / 2"

text \<open>A graph of the two end nodes and no edge.\<close>

definition twoNodes :: "GraphNode list" where
  "twoNodes = [sourceNode origin, destNode east2]"

text \<open>The graph from (0, 0) to (0, 0.001) when \<^verbatim>\<open>Math.random()\<close> returns 0, and the state
  in which the solver leaves its loop on it: the state after the first iteration, less the
  head of the queue.\<close>

definition nearbyNodes :: "GraphNode list" where
  "nearbyNodes = graphNodes origin nearby zeroDraws"

definition nearbyEdges :: "GraphEdge list" where
  "nearbyEdges = graphEdges Shortest zeroDraws nearbyNodes"

definition nearbyFinal :: SolverState where
  "nearbyFinal =
     (let st1 = relaxAll (buildGraph nearbyNodes nearbyEdges) ''source''
                  ((initState nearbyNodes)\<lparr>pq := []\<rparr>)
      in st1\<lparr>pq := tl (pq st1)\<rparr>)"

text \<open>The graph from (0, 0) to (0, 2) when \<^verbatim>\<open>Math.random()\<close> returns 1/2: its nodes, its
  one waypoint, its adjacency list in \<^verbatim>\<open>'shortest'\<close> mode, and the state in which the
  solver leaves its loop on it, after the iterations for \<^verbatim>\<open>'source'\<close> and for
  \<^verbatim>\<open>'waypoint_1'\<close>.\<close>

definition east2Nodes :: "GraphNode list" where
  "east2Nodes = graphNodes origin east2 halfDraws"

definition east2Graph :: Adjacency where
  "east2Graph = buildGraph east2Nodes (graphEdges Shortest halfDraws east2Nodes)"

definition east2Final :: SolverState where
  "east2Final =
     (let st1 = relaxAll east2Graph ''source'' ((initState east2Nodes)\<lparr>pq := []\<rparr>);
          st2 = relaxAll east2Graph ''waypoint_1'' (st1\<lparr>pq := tl (pq st1)\<rparr>)
      in st2\<lparr>pq := tl (pq st2)\<rparr>)"

definition midpoint1 :: GraphNode where
  "midpoint1 = \<lparr>lat = 0, lng = 1, name = ''Waypoint 1'', category = Some ''waypoint'',
                  node_id = ''waypoint_1''\<rparr>"

subsection \<open>The distance table of the solver\<close>

text \<open>The chain source, waypoint 1, ..., waypoint n, destination of a synthesized node
  list (which holds the source, the destination and then the waypoints).\<close>

definition literalChain :: "GraphNode list \<Rightarrow> GraphNode list" where
  "literalChain nodes = (case nodes of src # dst # wps \<Rightarrow> src # wps @ [dst] | _ \<Rightarrow> nodes)"

text \<open>A lower bound of the distance that the solver can store for a node, and the states
  whose distance table respects it and holds \<open>W\<close> for \<^verbatim>\<open>'destination'\<close>.\<close>

definition lowerBound :: "GraphNode \<Rightarrow> GraphNode \<Rightarrow> real" where
  "lowerBound src n = (if node_id n = ''source'' then 0 else nodeDistance src n)"

definition bounded :: "GraphNode list \<Rightarrow> GraphNode \<Rightarrow> real \<Rightarrow> SolverState \<Rightarrow> bool" where
  "bounded nodes src W st =
     ((\<forall>n\<in>set nodes. \<exists>x. distances st (node_id n) = Some x \<and> (\<forall>v. x = Num v \<longrightarrow> lowerBound src n \<le> v)) \<and>
      (\<forall>e\<in>set (pq st). fst e \<in> node_id ` set nodes) \<and>
      distances st ''destination'' = Some (Num W))"

text \<open>An adjacency list whose weights are the distances between the nodes.\<close>

definition metricAdjacency :: "GraphNode list \<Rightarrow> Adjacency \<Rightarrow> bool" where
  "metricAdjacency nodes graph =
     (\<forall>a\<in>set nodes. \<forall>nb\<in>set (neighborsOf graph (node_id a)).
        \<exists>b\<in>set nodes. nodeId nb = node_id b \<and> nb_weight nb = nodeDistance a b)"

subsection \<open>Enclosures of sine and cosine\<close>

text \<open>The terms of the Taylor series of sine (\<open>off = 2\<close>, \<open>t0 = x\<close>) and of cosine
  (\<open>off = 1\<close>, \<open>t0 = 1\<close>) at \<open>x\<close>, without their signs, for \<open>X = x * x\<close>.\<close>

fun taylorTerm :: "nat \<Rightarrow> real \<Rightarrow> real \<Rightarrow> nat \<Rightarrow> real" where
  "taylorTerm off t0 X 0 = t0"
| "taylorTerm off t0 X (Suc k) =
     taylorTerm off t0 X k * X / (real (2 * k + off) * real (2 * k + off + 1))"

text \<open>A list of intervals, each of which holds the next term when the one before it holds
  the term before.\<close>

fun encloses :: "nat \<Rightarrow> real \<Rightarrow> nat \<Rightarrow> real \<times> real \<Rightarrow> (real \<times> real) list \<Rightarrow> bool" where
  "encloses off X k b [] = True"
| "encloses off X k b (b' # bs) =
     (0 \<le> fst b' \<and>
      fst b' * (real (2 * k + off) * real (2 * k + off + 1)) \<le> fst b * X \<and>
      snd b * X \<le> snd b' * (real (2 * k + off) * real (2 * k + off + 1)) \<and>
      encloses off X (Suc k) b' bs)"

text \<open>Bounds of the alternating sum of numbers in the given intervals.\<close>

fun altLo :: "(real \<times> real) list \<Rightarrow> real" and altHi :: "(real \<times> real) list \<Rightarrow> real" where
  "altLo [] = 0"
| "altLo (b # bs) = fst b - altHi bs"
| "altHi [] = 0"
| "altHi (b # bs) = snd b - altLo bs"

subsection \<open>A pair of antipodal points\<close>

definition south :: Location where
  "south = \<lparr>lat = - 82, lng = 0, name = ''S'', category = None\<rparr>"

definition north :: Location where
  "north = \<lparr>lat = 82, lng = 180, name = ''N'', category = None\<rparr>"

text \<open>The term \<open>a\<close> of \<open>calculateDistance64\<close>.\<close>

definition haversine64 :: "real \<Rightarrow> real \<Rightarrow> real \<Rightarrow> real \<Rightarrow> real" where
  "haversine64 lat1 lon1 lat2 lon2 =
     fl (fl (sin64 (fl (toRadians64 (fl (lat2 - lat1)) / 2)) *
             sin64 (fl (toRadians64 (fl (lat2 - lat1)) / 2))) +
         fl (fl (fl (cos64 (toRadians64 lat1) * cos64 (toRadians64 lat2)) *
                 sin64 (fl (toRadians64 (fl (lon2 - lon1)) / 2))) *
             sin64 (fl (toRadians64 (fl (lon2 - lon1)) / 2))))"

text \<open>The graph that is synthesized for them, and the state in which the solver leaves
  its loop on it.\<close>

definition antipodalNodes :: "GraphNode list" where
  "antipodalNodes = [sourceNode south, destNode north]"

definition antipodalEdge :: GraphEdge64 where
  "antipodalEdge =
     \<lparr>from64 = ''source'', to64 = ''destination'', weight64 = NaN, distance64 = NaN\<rparr>"

definition antipodalFinal :: SolverState where
  "antipodalFinal = (initState antipodalNodes)\<lparr>pq := []\<rparr>"

subsection \<open>The tables of the solver\<close>

text \<open>A node whose distance is still infinite has no predecessor.\<close>

definition unreached :: "SolverState \<Rightarrow> bool" where
  "unreached st = (\<forall>k. distances st k = Some Infinity \<longrightarrow> previous st k = Some None)"

section \<open>Lemmas on the computation in exact arithmetic\<close>

subsection \<open>The great-circle distance\<close>

lemma calculateDistance_haversine:
  "calculateDistance lat1 lon1 lat2 lon2 =
     6371 * (2 * atan2 (sqrt (haversine lat1 lon1 lat2 lon2)) (sqrt (1 - haversine lat1 lon1 lat2 lon2)))"
  by (simp add: calculateDistance_def haversine_def Let_def)

lemma sin_half_sq: "sin (x / 2) * sin (x / 2) = (1 - cos x) / (2::real)"
  using cos_double_sin [of "x / 2"] by (simp add: power2_eq_square)

lemma toRadians_diff: "toRadians (a - b) = toRadians a - toRadians b"
  by (simp add: toRadians_def left_diff_distrib)

lemma haversine_cosAngle: "haversine lat1 lon1 lat2 lon2 = (1 - cosAngle lat1 lon1 lat2 lon2) / 2"
proof -
  have "haversine lat1 lon1 lat2 lon2 =
      (1 - cos (toRadians lat2 - toRadians lat1)) / 2 +
      cos (toRadians lat1) * cos (toRadians lat2) * ((1 - cos (toRadians (lon2 - lon1))) / 2)"
    unfolding haversine_def
    by (simp add: sin_half_sq toRadians_diff mult.assoc)
  also have "\<dots> = (1 - cosAngle lat1 lon1 lat2 lon2) / 2"
    by (simp add: cosAngle_def cos_diff field_simps)
  finally show ?thesis .
qed

lemma abs_prod_le: "\<bar>x * y\<bar> \<le> (x * x + y * y) / (2::real)"
proof -
  have "0 \<le> (\<bar>x\<bar> - \<bar>y\<bar>) * (\<bar>x\<bar> - \<bar>y\<bar>)" by simp
  also have "\<dots> = x * x + y * y - 2 * \<bar>x * y\<bar>" by (simp add: algebra_simps abs_mult)
  finally show ?thesis by simp
qed

lemma cosAngle_bounds: "\<bar>cosAngle lat1 lon1 lat2 lon2\<bar> \<le> 1"
proof -
  let ?s1 = "sin (toRadians lat1)" and ?s2 = "sin (toRadians lat2)"
  let ?c1 = "cos (toRadians lat1)" and ?c2 = "cos (toRadians lat2)"
  let ?c = "cos (toRadians (lon2 - lon1))"
  have "\<bar>?c1 * ?c2 * ?c\<bar> = \<bar>?c1 * ?c2\<bar> * \<bar>?c\<bar>" by (simp add: abs_mult)
  also have "\<dots> \<le> \<bar>?c1 * ?c2\<bar> * 1" by (intro mult_left_mono) auto
  finally have 1: "\<bar>?c1 * ?c2 * ?c\<bar> \<le> \<bar>?c1 * ?c2\<bar>" by simp
  have "\<bar>cosAngle lat1 lon1 lat2 lon2\<bar> \<le> \<bar>?s1 * ?s2\<bar> + \<bar>?c1 * ?c2 * ?c\<bar>"
    unfolding cosAngle_def by (rule abs_triangle_ineq)
  also have "\<dots> \<le> (?s1 * ?s1 + ?s2 * ?s2) / 2 + (?c1 * ?c1 + ?c2 * ?c2) / 2"
    using 1 abs_prod_le [of ?s1 ?s2] abs_prod_le [of ?c1 ?c2] by linarith
  also have "\<dots> = 1"
    using sin_cos_squared_add [of "toRadians lat1"] sin_cos_squared_add [of "toRadians lat2"]
    unfolding power2_eq_square by argo
  finally show ?thesis .
qed

lemma haversine_range: "0 \<le> haversine lat1 lon1 lat2 lon2" "haversine lat1 lon1 lat2 lon2 \<le> 1"
  using cosAngle_bounds [of lat1 lon1 lat2 lon2] by (simp_all add: haversine_cosAngle abs_le_iff)

lemma atan2_nonneg: "0 \<le> y \<Longrightarrow> 0 \<le> atan2 y x"
proof -
  assume y: "0 \<le> y"
  have "- (pi / 2) < arctan (y / x)" by (rule arctan_lbound)
  with pi_gt_zero have "0 \<le> arctan (y / x) + pi" by linarith
  moreover have "0 < x \<Longrightarrow> 0 \<le> arctan (y / x)" using y by simp
  ultimately show ?thesis using y pi_gt_zero by (auto simp: atan2_def)
qed

lemma calculateDistance_nonneg: "0 \<le> calculateDistance lat1 lon1 lat2 lon2"
  unfolding calculateDistance_haversine
  using atan2_nonneg [of "sqrt (haversine lat1 lon1 lat2 lon2)"] haversine_range(1) [of lat1 lon1 lat2 lon2]
  by simp

lemma calculateDistance_same: "calculateDistance a b a b = 0"
  by (simp add: calculateDistance_def toRadians_def atan2_def)

lemma calculateDistance_sym: "calculateDistance a b c d = calculateDistance c d a b"
proof -
  have "haversine a b c d = haversine c d a b"
    by (simp add: haversine_cosAngle cosAngle_def toRadians_diff cos_diff mult.commute)
  then show ?thesis by (simp add: calculateDistance_haversine)
qed

lemma atan2_sin_cos:
  assumes "0 \<le> t" "t \<le> pi / 2"
  shows "atan2 (sin t) (cos t) = t"
proof (cases "t = pi / 2")
  case True
  have "sin (pi / 2) = 1" "cos (pi / 2) = 0" by simp_all
  then show ?thesis unfolding True atan2_def by simp
next
  case False
  with assms have t: "- (pi / 2) < t" "t < pi / 2" by auto
  then have "0 < cos t" by (rule cos_gt_zero_pi)
  moreover have "arctan (sin t / cos t) = t"
    using arctan_tan [OF t] by (simp add: tan_def)
  ultimately show ?thesis by (simp add: atan2_def)
qed

lemma calculateDistance_arccos:
  "calculateDistance lat1 lon1 lat2 lon2 = 6371 * arccos (cosAngle lat1 lon1 lat2 lon2)"
proof -
  let ?C = "cosAngle lat1 lon1 lat2 lon2" and ?h = "haversine lat1 lon1 lat2 lon2"
  let ?t = "arccos ?C / 2"
  from cosAngle_bounds [of lat1 lon1 lat2 lon2] have C: "- 1 \<le> ?C" "?C \<le> 1" by (simp_all add: abs_le_iff)
  from arccos_lbound [OF C] arccos_ubound [OF C] have t: "0 \<le> ?t" "?t \<le> pi / 2" by simp_all
  have cosC: "cos (arccos ?C) = ?C" using C by (rule cos_arccos)
  have "sin ?t * sin ?t = ?h" using sin_half_sq [of "arccos ?C"] cosC by (simp add: haversine_cosAngle)
  moreover have "0 \<le> sin ?t" using t pi_gt_zero by (intro sin_ge_zero) linarith+
  ultimately have s: "sqrt ?h = sin ?t" by (metis real_sqrt_abs2 abs_of_nonneg)
  have "cos ?t * cos ?t = 1 - sin ?t * sin ?t"
    using sin_cos_squared_add [of ?t] unfolding power2_eq_square by linarith
  also have "\<dots> = 1 - ?h" using \<open>sin ?t * sin ?t = ?h\<close> by simp
  finally have "cos ?t * cos ?t = 1 - ?h" .
  moreover have "0 \<le> cos ?t" using t by (intro cos_ge_zero) linarith+
  ultimately have c: "sqrt (1 - ?h) = cos ?t" by (metis real_sqrt_abs2 abs_of_nonneg)
  show ?thesis
    unfolding calculateDistance_haversine s c atan2_sin_cos [OF t] by simp
qed

lemma calculateDistance_equator:
  assumes "\<bar>y - x\<bar> \<le> 180"
  shows "calculateDistance 0 x 0 y = 6371 * (\<bar>y - x\<bar> * pi / 180)"
proof -
  let ?t = "toRadians (y - x)"
  have C: "cosAngle 0 x 0 y = cos ?t" by (simp add: cosAngle_def toRadians_def)
  have "\<bar>?t\<bar> = \<bar>y - x\<bar> * (pi / 180)" by (simp add: toRadians_def abs_mult)
  also have "\<dots> \<le> 180 * (pi / 180)" using assms by (intro mult_right_mono) simp_all
  finally have t: "\<bar>?t\<bar> \<le> pi" by simp
  have "arccos (cos ?t) = \<bar>?t\<bar>"
  proof (cases "0 \<le> ?t")
    case True
    with t show ?thesis by (simp add: arccos_cos)
  next
    case False
    with t show ?thesis by (simp add: arccos_cos2)
  qed
  also have "\<dots> = \<bar>y - x\<bar> * pi / 180" by (simp add: toRadians_def abs_mult)
  finally have "arccos (cos ?t) = \<bar>y - x\<bar> * pi / 180" .
  then show ?thesis unfolding calculateDistance_arccos C by (rule arg_cong)
qed

subsection \<open>A predecessor table without end\<close>

lemma set_enqueue: "set (enqueue x a q) = insert (x, a) (set q)"
  by (simp add: enqueue_def)

lemma relax_cases:
  "relax cur st nb = st \<or>
   (\<exists>alt. relax cur st nb =
      \<lparr>distances = (distances st)(nodeId nb \<mapsto> Num alt),
       previous = (previous st)(nodeId nb \<mapsto> Some cur),
       pq = enqueue (nodeId nb) alt (pq st)\<rparr>)"
  by (auto simp: relax_def Let_def split: jsnum.splits)

lemma cyclic_relax:
  assumes "cyclic ids st" "cur \<in> ids" "nodeId nb \<in> ids"
  shows "cyclic ids (relax cur st nb)"
  using relax_cases [of cur st nb] assms
  by (auto simp: cyclic_def closedPrev_def set_enqueue)

lemma cyclic_foldl_relax:
  "cyclic ids st \<Longrightarrow> cur \<in> ids \<Longrightarrow> nodeId ` set l \<subseteq> ids \<Longrightarrow> cyclic ids (foldl (relax cur) st l)"
  by (induction l arbitrary: st) (auto intro: cyclic_relax)

lemma cyclic_relaxAll:
  "cyclic ids st \<Longrightarrow> cur \<in> ids \<Longrightarrow> wellFormed ids graph \<Longrightarrow> cyclic ids (relaxAll graph cur st)"
  unfolding relaxAll_def by (rule cyclic_foldl_relax) (auto simp: wellFormed_def)

lemma cyclic_dequeue: "cyclic ids st \<Longrightarrow> pq st = item # items \<Longrightarrow> cyclic ids (st\<lparr>pq := items\<rparr>)"
  by (auto simp: cyclic_def)

lemma cyclic_dijkstraLoop:
  assumes run: "dijkstraLoop graph st = Some st'" and wf: "wellFormed ids graph"
    and c0: "cyclic ids st"
  shows "cyclic ids st'"
proof -
  have "wellFormed ids graph \<longrightarrow> cyclic ids st \<longrightarrow> cyclic ids st'"
  proof (rule dijkstraLoop.raw_induct
      [where P = "\<lambda>g s y. wellFormed ids g \<longrightarrow> cyclic ids s \<longrightarrow> cyclic ids y", OF _ run])
    fix loop g s y
    assume IH: "\<And>g s y. loop g s = Some y \<Longrightarrow> wellFormed ids g \<longrightarrow> cyclic ids s \<longrightarrow> cyclic ids y"
    assume step: "(case pq s of [] \<Rightarrow> Some s
        | item # items \<Rightarrow>
            if fst item = [] then Some (s\<lparr>pq := items\<rparr>)
            else if fst item = ''destination'' then Some (s\<lparr>pq := items\<rparr>)
                 else loop g (relaxAll g (fst item) (s\<lparr>pq := items\<rparr>))) = Some y"
    show "wellFormed ids g \<longrightarrow> cyclic ids s \<longrightarrow> cyclic ids y"
    proof (intro impI)
      assume wf: "wellFormed ids g" and c: "cyclic ids s"
      show "cyclic ids y"
      proof (cases "pq s")
        case Nil
        with step c show ?thesis by simp
      next
        case (Cons item items)
        have c1: "cyclic ids (s\<lparr>pq := items\<rparr>)" using c Cons by (rule cyclic_dequeue)
        have mem: "fst item \<in> ids" using c Cons by (auto simp: cyclic_def)
        show ?thesis
        proof (cases "fst item = [] \<or> fst item = ''destination''")
          case True
          with step Cons c1 show ?thesis by auto
        next
          case False
          with step Cons have "loop g (relaxAll g (fst item) (s\<lparr>pq := items\<rparr>)) = Some y"
            by auto
          from IH[OF this] wf cyclic_relaxAll[OF c1 mem wf] show ?thesis by blast
        qed
      qed
    qed
  qed
  with wf c0 show ?thesis by blast
qed

lemma reconstruct_cyclic_aux:
  assumes run: "reconstruct nodes prev cur p = Some r"
  shows "closedPrev ids prev \<longrightarrow> [] \<notin> ids \<longrightarrow> cur \<notin> ids"
proof (rule reconstruct.raw_induct
    [where P = "\<lambda>n pr c q y. closedPrev ids pr \<longrightarrow> [] \<notin> ids \<longrightarrow> c \<notin> ids", OF _ run])
  fix rec :: "GraphNode list \<Rightarrow> (string \<rightharpoonup> string option) \<Rightarrow> string \<Rightarrow> GraphNode list
      \<Rightarrow> GraphNode list option"
    and nodes prev cur p r
  assume IH: "\<And>n pr c q y. rec n pr c q = Some y \<Longrightarrow> closedPrev ids pr \<longrightarrow> [] \<notin> ids \<longrightarrow> c \<notin> ids"
  assume step: "(case nextId prev cur of None \<Rightarrow> Some (unshiftNode nodes cur p)
      | Some next \<Rightarrow> rec nodes prev next (unshiftNode nodes cur p)) = Some r"
  show "closedPrev ids prev \<longrightarrow> [] \<notin> ids \<longrightarrow> cur \<notin> ids"
  proof (intro impI notI)
    assume cl: "closedPrev ids prev" and ne: "[] \<notin> ids" and mem: "cur \<in> ids"
    from cl mem obtain q where q: "q \<in> ids" "prev cur = Some (Some q)"
      by (auto simp: closedPrev_def)
    with ne have "nextId prev cur = Some q" by (auto simp: nextId_def)
    with step have "rec nodes prev q (unshiftNode nodes cur p) = Some r" by simp
    from IH[OF this] cl ne q(1) show False by blast
  qed
qed

lemma reconstruct_cyclic:
  "closedPrev ids prev \<Longrightarrow> [] \<notin> ids \<Longrightarrow> cur \<in> ids \<Longrightarrow> reconstruct nodes prev cur p = None"
  using reconstruct_cyclic_aux [of nodes prev cur p _ ids] by (cases "reconstruct nodes prev cur p") auto

subsection \<open>The first iteration, and the iteration after it\<close>

lemma relax_at:
  "previous (relax cur st nb) x = previous st x \<and> distances (relax cur st nb) x = distances st x \<or>
   x = nodeId nb \<and> previous (relax cur st nb) x = Some (Some cur) \<and>
     (\<exists>a. distances (relax cur st nb) x = Some (Num a))"
  using relax_cases [of cur st nb] by auto

lemma relax_pq: "e \<in> set (pq (relax cur st nb)) \<Longrightarrow> e \<in> set (pq st) \<or> fst e = nodeId nb"
  using relax_cases [of cur st nb] by (auto simp: set_enqueue)

lemma relax_fires:
  assumes "distances st cur = Some (Num v)" "orInfinity (distances st (nodeId nb)) = Infinity"
  shows "previous (relax cur st nb) (nodeId nb) = Some (Some cur) \<and>
     (\<exists>a. distances (relax cur st nb) (nodeId nb) = Some (Num a))"
  using assms by (simp add: relax_def)

lemma reached_relax: "reached st x \<Longrightarrow> reached (relax ''source'' st nb) x"
  using relax_at [of "''source''" st nb x] by (auto simp: reached_def)

lemma starting_relax:
  assumes s: "starting ids st" and nb: "nodeId nb \<in> ids" "nodeId nb \<noteq> ''source''"
  shows "starting ids (relax ''source'' st nb) \<and> reached (relax ''source'' st nb) (nodeId nb)"
proof -
  let ?st = "relax ''source'' st nb"
  from s have d0: "distances st ''source'' = Some (Num 0)" and p0: "previous st ''source'' = Some None"
    and q0: "\<forall>e\<in>set (pq st). fst e \<in> ids \<and> fst e \<noteq> ''source''"
    by (simp_all add: starting_def sourceFree_def)
  have sf: "sourceFree ids ?st"
    unfolding sourceFree_def
  proof (intro conjI ballI)
    show "distances ?st ''source'' = Some (Num 0)"
      using relax_at [of "''source''" st nb "''source''"] d0 nb by auto
    show "previous ?st ''source'' = Some None"
      using relax_at [of "''source''" st nb "''source''"] p0 nb by auto
  next
    fix e assume "e \<in> set (pq ?st)"
    from relax_pq [OF this] q0 nb show "fst e \<in> ids" "fst e \<noteq> ''source''" by auto
  qed
  have r: "reached ?st (nodeId nb)"
  proof -
    from s nb have "untouched st (nodeId nb) \<or> reached st (nodeId nb)" by (simp add: starting_def)
    then show ?thesis
    proof
      assume "untouched st (nodeId nb)"
      then have "orInfinity (distances st (nodeId nb)) = Infinity" by (simp add: untouched_def)
      from relax_fires [OF d0 this] show ?thesis by (simp add: reached_def)
    qed (rule reached_relax)
  qed
  have "\<forall>x\<in>ids. x \<noteq> ''source'' \<longrightarrow> untouched ?st x \<or> reached ?st x"
  proof (intro ballI impI)
    fix x assume x: "x \<in> ids" "x \<noteq> ''source''"
    with s have "untouched st x \<or> reached st x" by (simp add: starting_def)
    with relax_at [of "''source''" st nb x] show "untouched ?st x \<or> reached ?st x"
      by (auto simp: untouched_def reached_def)
  qed
  with sf r show ?thesis by (simp add: starting_def)
qed

lemma starting_foldl:
  "starting ids st \<Longrightarrow> \<forall>nb\<in>set l. nodeId nb \<in> ids \<and> nodeId nb \<noteq> ''source'' \<Longrightarrow>
   starting ids (foldl (relax ''source'') st l) \<and>
   (\<forall>x. x \<in> nodeId ` set l \<or> reached st x \<longrightarrow> reached (foldl (relax ''source'') st l) x)"
proof (induction l arbitrary: st)
  case Nil
  then show ?case by simp
next
  case (Cons nb l)
  from Cons.prems have nb: "nodeId nb \<in> ids" "nodeId nb \<noteq> ''source''" by auto
  note r = starting_relax [OF Cons.prems(1) nb]
  from Cons.prems have "\<forall>nb\<in>set l. nodeId nb \<in> ids \<and> nodeId nb \<noteq> ''source''" by simp
  from Cons.IH [OF conjunct1 [OF r] this] r reached_relax [of st _ nb] show ?case by auto
qed

lemma relaxing_relax:
  assumes r: "relaxing ids cur st" and cur: "cur \<in> ids" "cur \<noteq> ''source''" and nb: "nodeId nb \<in> ids"
  shows "relaxing ids cur (relax cur st nb) \<and>
     (nodeId nb = ''source'' \<or> sourceLinked ids st \<longrightarrow> sourceLinked ids (relax cur st nb))"
proof -
  let ?st = "relax cur st nb"
  from r obtain v where v: "distances st cur = Some (Num v)" by (auto simp: relaxing_def)
  have linked: "sourceLinked ids ?st" if "sourceLinked ids st"
    using that relax_at [of cur st nb "''source''"] cur by (auto simp: sourceLinked_def)
  have fires: "sourceLinked ids ?st" if "nodeId nb = ''source''" "\<not> sourceLinked ids st"
  proof -
    from r that have "distances st ''source'' = Some (Num 0)"
      by (auto simp: relaxing_def sourceLinked_def)
    with that have "orInfinity (distances st (nodeId nb)) = Infinity" by simp
    from relax_fires [OF v this] that cur show ?thesis by (auto simp: sourceLinked_def)
  qed
  have "relaxing ids cur ?st"
    unfolding relaxing_def
  proof (intro conjI ballI impI)
    fix x assume "x \<in> ids" "x \<noteq> ''source''"
    with r obtain p where "p \<in> ids" "previous st x = Some (Some p)" by (auto simp: relaxing_def)
    with relax_at [of cur st nb x] cur show "\<exists>p\<in>ids. previous ?st x = Some (Some p)" by auto
  next
    fix e assume "e \<in> set (pq ?st)"
    from relax_pq [OF this] r nb show "fst e \<in> ids" by (auto simp: relaxing_def)
  next
    from relax_at [of cur st nb cur] v show "\<exists>v. distances ?st cur = Some (Num v)" by auto
  next
    show "previous ?st ''source'' = Some None \<and> distances ?st ''source'' = Some (Num 0) \<or>
      (\<exists>p\<in>ids. previous ?st ''source'' = Some (Some p))"
    proof (cases "sourceLinked ids st")
      case True
      from linked [OF this] show ?thesis by (simp add: sourceLinked_def)
    next
      case False
      show ?thesis
      proof (cases "nodeId nb = ''source''")
        case True
        from fires [OF this False] show ?thesis by (simp add: sourceLinked_def)
      next
        case nsrc: False
        from r False have "previous st ''source'' = Some None \<and> distances st ''source'' = Some (Num 0)"
          by (auto simp: relaxing_def sourceLinked_def)
        with relax_at [of cur st nb "''source''"] nsrc show ?thesis by auto
      qed
    qed
  qed
  with linked fires show ?thesis by blast
qed

lemma relaxing_foldl:
  "relaxing ids cur st \<Longrightarrow> cur \<in> ids \<Longrightarrow> cur \<noteq> ''source'' \<Longrightarrow> \<forall>nb\<in>set l. nodeId nb \<in> ids \<Longrightarrow>
   relaxing ids cur (foldl (relax cur) st l) \<and>
   (''source'' \<in> nodeId ` set l \<or> sourceLinked ids st \<longrightarrow> sourceLinked ids (foldl (relax cur) st l))"
proof (induction l arbitrary: st)
  case Nil
  then show ?case by simp
next
  case (Cons nb l)
  from Cons.prems have nb: "nodeId nb \<in> ids" by simp
  note r = relaxing_relax [OF Cons.prems(1,2,3) nb]
  from Cons.prems have "\<forall>nb\<in>set l. nodeId nb \<in> ids" by simp
  from Cons.IH [OF conjunct1 [OF r] Cons.prems(2,3) this] r show ?case by auto
qed

lemma fresh_relaxing: "fresh ids st \<Longrightarrow> ''source'' \<in> ids \<Longrightarrow> cur \<in> ids \<Longrightarrow> cur \<noteq> ''source'' \<Longrightarrow>
    pq st = item # items \<Longrightarrow> relaxing ids cur (st\<lparr>pq := items\<rparr>)"
  by (auto simp: fresh_def sourceFree_def reached_def relaxing_def)

lemma relaxing_cyclic: "relaxing ids cur st \<Longrightarrow> sourceLinked ids st \<Longrightarrow> cyclic ids st"
  by (auto simp: relaxing_def sourceLinked_def cyclic_def closedPrev_def)

lemma fresh_step:
  assumes ok: "graphOK ids graph" and f: "fresh ids st" and q: "pq st = item # items"
    and ne: "fst item \<noteq> ''destination''"
  shows "cyclic ids (relaxAll graph (fst item) (st\<lparr>pq := items\<rparr>))"
proof -
  from f q have mem: "fst item \<in> ids" "fst item \<noteq> ''source''"
    by (auto simp: fresh_def sourceFree_def)
  from ok have src: "''source'' \<in> ids" by (simp add: graphOK_def)
  have r: "relaxing ids (fst item) (st\<lparr>pq := items\<rparr>)"
    using f src mem q by (rule fresh_relaxing)
  from ok have wf: "\<forall>nb\<in>set (neighborsOf graph (fst item)). nodeId nb \<in> ids"
    by (auto simp: graphOK_def wellFormed_def)
  from ok mem have adj: "''source'' \<in> nodeId ` set (neighborsOf graph (fst item))"
    by (simp add: graphOK_def)
  from relaxing_foldl [OF r mem wf] adj show ?thesis
    unfolding relaxAll_def by (blast intro: relaxing_cyclic)
qed

lemma fresh_dequeue: "fresh ids st \<Longrightarrow> pq st = item # items \<Longrightarrow> fresh ids (st\<lparr>pq := items\<rparr>)"
  by (auto simp: fresh_def sourceFree_def reached_def)

subsection \<open>The adjacency list of a synthesized graph\<close>

lemma addEdge_at: "addEdge g e k = (case g k of None \<Rightarrow> None | Some l \<Rightarrow> Some (l @ entriesFor k e))"
  by (auto simp: addEdge_def pushNeighbor_def entriesFor_def split: option.splits)

lemma foldl_addEdge_at:
  "foldl addEdge g es k = (case g k of None \<Rightarrow> None | Some l \<Rightarrow> Some (l @ concat (map (entriesFor k) es)))"
  by (induction es arbitrary: g) (auto simp: addEdge_at split: option.splits)

lemma foldl_set_empty_at:
  "foldl (\<lambda>graph node. graph(node_id node \<mapsto> [])) m nodes k =
     (if k \<in> node_id ` set nodes then Some [] else m k)"
  by (induction nodes arbitrary: m) auto

lemma neighborsOf_buildGraph:
  "neighborsOf (buildGraph nodes edges) k =
     (if k \<in> node_id ` set nodes then concat (map (entriesFor k) edges) else [])"
  by (simp add: neighborsOf_def buildGraph_def foldl_addEdge_at foldl_set_empty_at)

lemma allPairs_subset: "(a, b) \<in> set (allPairs xs) \<Longrightarrow> a \<in> set xs \<and> b \<in> set xs"
  by (induction xs) auto

lemma allPairs_Cons_snd: "(a, b) \<in> set (allPairs (x # xs)) \<Longrightarrow> b \<in> set xs"
  by (auto dest: allPairs_subset)

lemma makeEdge_ids [simp]:
  "from_id (makeEdge rt r a b) = node_id a" "to_id (makeEdge rt r a b) = node_id b"
  by (simp_all add: makeEdge_def Let_def)

lemma graphEdges_D:
  "e \<in> set (graphEdges rt rnd nodes) \<Longrightarrow> \<exists>a b r. (a, b) \<in> set (allPairs nodes) \<and> e = makeEdge rt r a b"
proof -
  assume "e \<in> set (graphEdges rt rnd nodes)"
  then obtain i a b where i: "i < length (allPairs nodes)" "allPairs nodes ! i = (a, b)"
    and e: "e = makeEdge rt (rnd (length nodes - 2 + i)) a b"
    by (auto simp: graphEdges_def in_set_enumerate_eq)
  from i have "(a, b) \<in> set (allPairs nodes)" by (metis nth_mem)
  with e show ?thesis by blast
qed

lemma neighborsOf_buildGraph_I:
  "e \<in> set edges \<Longrightarrow> nb \<in> set (entriesFor k e) \<Longrightarrow> k \<in> node_id ` set nodes \<Longrightarrow>
   nb \<in> set (neighborsOf (buildGraph nodes edges) k)"
  by (auto simp: neighborsOf_buildGraph)

lemma graphEdges_I:
  "(a, b) \<in> set (allPairs nodes) \<Longrightarrow> \<exists>r. makeEdge rt r a b \<in> set (graphEdges rt rnd nodes)"
proof -
  assume "(a, b) \<in> set (allPairs nodes)"
  then obtain i where i: "i < length (allPairs nodes)" "allPairs nodes ! i = (a, b)"
    by (auto simp: in_set_conv_nth)
  then have "(i, (a, b)) \<in> set (enumerate 0 (allPairs nodes))"
    by (simp add: in_set_enumerate_eq)
  then have "makeEdge rt (rnd (length nodes - 2 + i)) a b \<in> set (graphEdges rt rnd nodes)"
    unfolding graphEdges_def by force
  then show ?thesis ..
qed

lemma nodeId_entriesFor: "nb \<in> set (entriesFor k e) \<Longrightarrow>
    (from_id e = k \<and> nodeId nb = to_id e) \<or> (to_id e = k \<and> nodeId nb = from_id e)"
  by (auto simp: entriesFor_def split: if_splits)

lemma graphOK_buildGraph:
  assumes nodes: "nodes = src # rest" and src: "node_id src = ''source''"
    and rest: "\<forall>n\<in>set rest. node_id n \<noteq> ''source'' \<and> node_id n \<noteq> []"
  shows "graphOK (node_id ` set nodes) (buildGraph nodes (graphEdges rt rnd nodes))"
proof -
  let ?ids = "node_id ` set nodes" and ?es = "graphEdges rt rnd nodes"
  let ?g = "buildGraph nodes ?es"
  have nb_D: "\<exists>a b. (a, b) \<in> set (allPairs nodes) \<and>
      (node_id a = k \<and> nodeId nb = node_id b \<or> node_id b = k \<and> nodeId nb = node_id a)"
    if "nb \<in> set (neighborsOf ?g k)" for nb k
  proof -
    from that obtain e where e: "e \<in> set ?es" "nb \<in> set (entriesFor k e)"
      by (auto simp: neighborsOf_buildGraph split: if_splits)
    from graphEdges_D [OF e(1)] obtain a b r where
      ab: "(a, b) \<in> set (allPairs nodes)" "e = makeEdge rt r a b" by blast
    with nodeId_entriesFor [OF e(2)] show ?thesis by auto
  qed
  have src_nb: "\<exists>nb\<in>set (neighborsOf ?g ''source''). nodeId nb = node_id y"
    and nb_src: "\<exists>nb\<in>set (neighborsOf ?g (node_id y)). nodeId nb = ''source''"
    if "y \<in> set rest" for y
  proof -
    from that nodes have "(src, y) \<in> set (allPairs nodes)" by simp
    from graphEdges_I [OF this] obtain r where e: "makeEdge rt r src y \<in> set ?es" by blast
    let ?e = "makeEdge rt r src y"
    have "\<lparr>nodeId = node_id y, nb_weight = weight ?e, nb_distance = distance ?e\<rparr>
        \<in> set (entriesFor ''source'' ?e)"
      by (simp add: entriesFor_def src)
    from neighborsOf_buildGraph_I [OF e this, of nodes] nodes src
    show "\<exists>nb\<in>set (neighborsOf ?g ''source''). nodeId nb = node_id y"
      by force
    have "\<lparr>nodeId = ''source'', nb_weight = weight ?e, nb_distance = distance ?e\<rparr>
        \<in> set (entriesFor (node_id y) ?e)"
      by (simp add: entriesFor_def src)
    from neighborsOf_buildGraph_I [OF e this, of nodes] nodes that
    show "\<exists>nb\<in>set (neighborsOf ?g (node_id y)). nodeId nb = ''source''"
      by force
  qed
  have "wellFormed ?ids ?g"
    unfolding wellFormed_def using nb_D allPairs_subset by fastforce
  moreover have "\<forall>w\<in>?ids. w \<noteq> ''source'' \<longrightarrow> ''source'' \<in> nodeId ` set (neighborsOf ?g w)"
    using nb_src nodes src by force
  moreover have "nodeId ` set (neighborsOf ?g ''source'') = ?ids - {''source''}"
  proof (intro set_eqI iffI)
    fix x assume "x \<in> nodeId ` set (neighborsOf ?g ''source'')"
    then obtain nb where nb: "nb \<in> set (neighborsOf ?g ''source'')" "x = nodeId nb" by auto
    from nb_D [OF nb(1)] obtain a b where ab: "(a, b) \<in> set (allPairs nodes)"
      "node_id a = ''source'' \<and> nodeId nb = node_id b \<or> node_id b = ''source'' \<and> nodeId nb = node_id a"
      by blast
    from ab(1) nodes have b: "b \<in> set rest" using allPairs_Cons_snd [of a b src rest] by simp
    with rest ab(2) have "nodeId nb = node_id b" by auto
    with b rest nb(2) nodes show "x \<in> ?ids - {''source''}" by auto
  next
    fix x assume "x \<in> ?ids - {''source''}"
    with nodes src obtain y where "y \<in> set rest" "x = node_id y" by auto
    with src_nb show "x \<in> nodeId ` set (neighborsOf ?g ''source'')" by force
  qed
  moreover have "''source'' \<in> ?ids" "[] \<notin> ?ids" using nodes src rest by auto
  ultimately show ?thesis by (simp add: graphOK_def)
qed

subsection \<open>The initial state\<close>

lemma foldl_set_at:
  "foldl (\<lambda>m node. m(node_id node \<mapsto> f (node_id node))) m nodes k =
     (if k \<in> node_id ` set nodes then Some (f k) else m k)"
  by (induction nodes arbitrary: m) auto

lemma initState_distances:
  "distances (initState nodes) k =
     (if k \<in> node_id ` set nodes then Some (if k = ''source'' then Num 0 else Infinity) else None)"
  using foldl_set_at [of "\<lambda>k. if k = ''source'' then Num 0 else Infinity" Map.empty nodes k]
  by (simp add: initState_def)

lemma initState_previous:
  "previous (initState nodes) k = (if k \<in> node_id ` set nodes then Some None else None)"
  using foldl_set_at [of "\<lambda>k. None" Map.empty nodes k]
  by (simp add: initState_def)

lemma initState_pq: "pq (initState nodes) = [(''source'', 0)]"
  by (simp add: initState_def enqueue_def)

lemma starting_initState:
  "''source'' \<in> node_id ` set nodes \<Longrightarrow> starting (node_id ` set nodes) ((initState nodes)\<lparr>pq := []\<rparr>)"
  by (simp add: starting_def sourceFree_def untouched_def initState_distances initState_previous)

lemma dijkstraLoop_initState:
  "dijkstraLoop graph (initState nodes) =
     dijkstraLoop graph (relaxAll graph ''source'' ((initState nodes)\<lparr>pq := []\<rparr>))"
  by (subst dijkstraLoop.simps) (simp add: initState_pq)

lemma fresh_first_iteration:
  assumes ok: "graphOK (node_id ` set nodes) graph"
  shows "fresh (node_id ` set nodes) (relaxAll graph ''source'' ((initState nodes)\<lparr>pq := []\<rparr>))"
proof -
  let ?ids = "node_id ` set nodes" and ?l = "neighborsOf graph ''source''"
  from ok have src: "''source'' \<in> ?ids" and nbs: "nodeId ` set ?l = ?ids - {''source''}"
    by (simp_all add: graphOK_def)
  from nbs have "\<forall>nb\<in>set ?l. nodeId nb \<in> ?ids \<and> nodeId nb \<noteq> ''source''" by auto
  from starting_foldl [OF starting_initState [OF src] this] nbs show ?thesis
    by (auto simp: relaxAll_def fresh_def starting_def)
qed

lemma reconstruct_fresh:
  assumes f: "fresh ids st" and dst: "''destination'' \<in> ids"
  shows "reconstruct nodes (previous st) ''destination'' [] =
     Some (unshiftNode nodes ''source'' (unshiftNode nodes ''destination'' []))"
proof -
  from f dst have "previous st ''destination'' = Some (Some ''source'')"
    and "previous st ''source'' = Some None"
    by (auto simp: fresh_def sourceFree_def reached_def)
  then have "nextId (previous st) ''destination'' = Some ''source''"
    and "nextId (previous st) ''source'' = None"
    by (simp_all add: nextId_def)
  then show ?thesis
    by (subst reconstruct.simps, simp, subst reconstruct.simps, simp)
qed

lemma graphNodes_shape:
  "\<exists>wps. graphNodes s d rnd = sourceNode s # destNode d # wps \<and>
     (\<forall>w\<in>set wps. node_id w \<noteq> ''source'' \<and> node_id w \<noteq> ''destination'' \<and> node_id w \<noteq> [])"
  by (auto simp: graphNodes_def Let_def waypoint_def)

lemma node_id_simps [simp]:
  "node_id (sourceNode s) = ''source''" "node_id (destNode d) = ''destination''"
  by (simp_all add: sourceNode_def destNode_def)

subsection \<open>Node ids are distinct\<close>

lemma string_of_nat_digit: "n < 10 \<Longrightarrow> string_of_nat n = [''0123456789'' ! n]"
  by (simp add: string_of_nat.simps)

lemma string_of_nat_inj:
  assumes "i < 10" "j < 10" "string_of_nat i = string_of_nat j"
  shows "i = j"
proof -
  have "distinct ''0123456789''" by simp
  moreover have "length ''0123456789'' = 10" by simp
  ultimately show ?thesis
    using assms nth_eq_iff_index_eq [of "''0123456789''" i j]
    by (simp add: string_of_nat_digit)
qed

lemma numWaypointsOf_range: "2 \<le> numWaypointsOf x" "numWaypointsOf x \<le> 8"
  by (simp_all add: numWaypointsOf_def)

subsection \<open>The queue after the first iteration\<close>

lemma insort_key_front: "\<forall>y\<in>set ys. f h \<le> f y \<Longrightarrow> insort_key f h ys = h # ys"
  by (cases ys) auto

lemma enqueue_Cons:
  "\<forall>y\<in>set t. snd h \<le> snd y \<Longrightarrow> snd h \<le> a \<Longrightarrow> enqueue x a (h # t) = h # enqueue x a t"
  by (simp add: enqueue_def insort_key_front)

lemma sorted_enqueue: "sorted (map snd (enqueue x a q))"
  by (simp add: enqueue_def)

lemma set_enqueueAll:
  "set (enqueueAll q l) = set q \<union> (\<lambda>nb. (nodeId nb, nb_weight nb)) ` set l"
  unfolding enqueueAll_def by (induction l arbitrary: q) (auto simp: set_enqueue)

lemma sorted_enqueueAll: "sorted (map snd q) \<Longrightarrow> sorted (map snd (enqueueAll q l))"
  unfolding enqueueAll_def by (induction l arbitrary: q) (auto simp: sorted_enqueue)

lemma enqueueAll_keeps_head:
  "\<forall>y\<in>set t. snd h \<le> snd y \<Longrightarrow> \<forall>nb\<in>set l. snd h \<le> nb_weight nb \<Longrightarrow>
   \<exists>t'. enqueueAll (h # t) l = h # t'"
proof (induction l arbitrary: t)
  case Nil
  then show ?case by (simp add: enqueueAll_def)
next
  case (Cons nb l)
  then have "enqueue (nodeId nb) (nb_weight nb) (h # t) = h # enqueue (nodeId nb) (nb_weight nb) t"
    by (intro enqueue_Cons) auto
  moreover have "\<forall>y\<in>set (enqueue (nodeId nb) (nb_weight nb) t). snd h \<le> snd y"
    using Cons.prems by (auto simp: set_enqueue)
  ultimately show ?case using Cons.IH [of "enqueue (nodeId nb) (nb_weight nb) t"] Cons.prems(2)
    by (simp add: enqueueAll_def)
qed

lemma enqueueAll_new_head:
  assumes "nb \<in> set l" "nb_weight nb < a" "x \<notin> nodeId ` set l"
  shows "\<exists>item items. enqueueAll [(x, a)] l = item # items \<and> fst item \<noteq> x"
proof -
  let ?q = "enqueueAll [(x, a)] l"
  have mem: "(x, a) \<in> set ?q" "(nodeId nb, nb_weight nb) \<in> set ?q"
    using assms(1) by (auto simp: set_enqueueAll)
  then obtain item items where q: "?q = item # items" by (cases ?q) auto
  have "sorted (map snd ?q)" by (rule sorted_enqueueAll) simp
  with q mem(2) have "snd item \<le> nb_weight nb" by auto
  with assms(2) have "item \<noteq> (x, a)" by auto
  moreover have "item \<in> set ?q" using q by simp
  ultimately have "fst item \<in> nodeId ` set l" by (auto simp: set_enqueueAll)
  with assms(3) q show ?thesis by auto
qed

lemma first_iteration_state:
  assumes "distances st ''source'' = Some (Num 0)"
    and "\<forall>nb\<in>set l. distances st (nodeId nb) = Some Infinity"
    and "distinct (map nodeId l)" and "''source'' \<notin> nodeId ` set l"
  shows "pq (foldl (relax ''source'') st l) = enqueueAll (pq st) l \<and>
     (\<forall>nb\<in>set l. distances (foldl (relax ''source'') st l) (nodeId nb) = Some (Num (nb_weight nb))) \<and>
     (\<forall>x. x \<notin> nodeId ` set l \<longrightarrow> distances (foldl (relax ''source'') st l) x = distances st x)"
  using assms
proof (induction l arbitrary: st)
  case Nil
  then show ?case by (simp add: enqueueAll_def)
next
  case (Cons nb l)
  let ?st = "relax ''source'' st nb"
  from Cons.prems have st: "?st = \<lparr>distances = (distances st)(nodeId nb \<mapsto> Num (nb_weight nb)),
       previous = (previous st)(nodeId nb \<mapsto> Some ''source''),
       pq = enqueue (nodeId nb) (nb_weight nb) (pq st)\<rparr>"
    by (simp add: relax_def)
  from Cons.prems(3) have notin: "nodeId nb \<notin> nodeId ` set l" by simp
  then have ne: "\<forall>nb'\<in>set l. nodeId nb' \<noteq> nodeId nb" by (metis imageI)
  have IH: "pq (foldl (relax ''source'') ?st l) = enqueueAll (pq ?st) l \<and>
     (\<forall>nb\<in>set l. distances (foldl (relax ''source'') ?st l) (nodeId nb) = Some (Num (nb_weight nb))) \<and>
     (\<forall>x. x \<notin> nodeId ` set l \<longrightarrow> distances (foldl (relax ''source'') ?st l) x = distances ?st x)"
  proof (rule Cons.IH)
    show "distances ?st ''source'' = Some (Num 0)" using Cons.prems by (auto simp: st)
    from ne Cons.prems show "\<forall>nb\<in>set l. distances ?st (nodeId nb) = Some Infinity" by (simp add: st)
  qed (use Cons.prems in auto)
  from IH notin have "distances (foldl (relax ''source'') ?st l) (nodeId nb) = Some (Num (nb_weight nb))"
    by (simp add: st)
  with IH show ?case by (simp add: enqueueAll_def) (simp add: st)
qed

subsection \<open>The edges out of the source\<close>

lemma snd_in_enumerate: "p \<in> set (enumerate n xs) \<Longrightarrow> snd p \<in> set xs"
  by (metis imageI map_snd_enumerate set_map)

lemma concat_map_singleton: "concat (map (\<lambda>x. [g x]) xs) = map g xs"
  by (induction xs) auto

lemma concat_map_Nil: "\<forall>x\<in>set xs. f x = [] \<Longrightarrow> concat (map f xs) = []"
  by (induction xs) auto

lemma enumerate_map_Pair:
  "enumerate n (map (Pair a) xs) = map (\<lambda>(k, y). (k, (a, y))) (enumerate n xs)"
  by (induction xs arbitrary: n) auto

lemma neighborsOf_source:
  assumes nodes: "nodes = src # rest" and src: "node_id src = ''source''"
    and rest: "\<forall>n\<in>set rest. node_id n \<noteq> ''source''"
  shows "neighborsOf (buildGraph nodes (graphEdges rt rnd nodes)) ''source'' =
     map (\<lambda>(k, y). toEntry (makeEdge rt (rnd (length nodes - 2 + k)) src y)) (enumerate 0 rest)"
proof -
  let ?mk = "\<lambda>(k, (node1, node2)). makeEdge rt (rnd (length nodes - 2 + k)) node1 node2"
  let ?f = "\<lambda>p. entriesFor ''source'' (?mk p)"
  have 1: "concat (map ?f (enumerate (length rest) (allPairs rest))) = []"
  proof (rule concat_map_Nil, rule ballI)
    fix p assume "p \<in> set (enumerate (length rest) (allPairs rest))"
    then have "snd p \<in> set (allPairs rest)" by (rule snd_in_enumerate)
    then obtain k a b where p: "p = (k, (a, b))" and ab: "(a, b) \<in> set (allPairs rest)"
      by (cases p) auto
    from allPairs_subset [OF ab] rest have "node_id a \<noteq> ''source''" "node_id b \<noteq> ''source''"
      by auto
    then show "?f p = []" by (simp add: p entriesFor_def)
  qed
  have 2: "map ?f (enumerate 0 (map (Pair src) rest)) =
      map (\<lambda>p. [(\<lambda>(k, y). toEntry (makeEdge rt (rnd (length nodes - 2 + k)) src y)) p]) (enumerate 0 rest)"
    unfolding enumerate_map_Pair map_map
  proof (rule map_cong [OF refl])
    fix p assume "p \<in> set (enumerate 0 rest)"
    then have "snd p \<in> set rest" by (rule snd_in_enumerate)
    then obtain k y where p: "p = (k, y)" and y: "y \<in> set rest"
      by (cases p) auto
    with rest have "node_id y \<noteq> ''source''" by simp
    then show "(?f \<circ> (\<lambda>(k, y). (k, (src, y)))) p =
        [(\<lambda>(k, y). toEntry (makeEdge rt (rnd (length nodes - 2 + k)) src y)) p]"
      by (simp add: p entriesFor_def src toEntry_def)
  qed
  have "neighborsOf (buildGraph nodes (graphEdges rt rnd nodes)) ''source'' =
      concat (map ?f (enumerate 0 (allPairs nodes)))"
    using nodes src by (simp add: neighborsOf_buildGraph graphEdges_def comp_def)
  also have "\<dots> = concat (map ?f (enumerate 0 (map (Pair src) rest))) @
      concat (map ?f (enumerate (length rest) (allPairs rest)))"
    by (simp add: nodes enumerate_append_eq)
  finally show ?thesis unfolding 1 2 by (simp add: concat_map_singleton)
qed

lemma graphNodes_ids:
  "map node_id (graphNodes s d rnd) =
     ''source'' # ''destination'' #
       map (\<lambda>i. ''waypoint_'' @ string_of_nat i) [1..<numWaypointsOf (calculateDistance (lat s) (lng s) (lat d) (lng d))]"
  by (simp add: graphNodes_def Let_def waypoint_def comp_def)

lemma distinct_graphNodes: "distinct (map node_id (graphNodes s d rnd))"
proof -
  let ?n = "numWaypointsOf (calculateDistance (lat s) (lng s) (lat d) (lng d))"
  have "inj_on (\<lambda>i. ''waypoint_'' @ string_of_nat i) (set [1..<?n])"
  proof (rule inj_onI)
    fix i j assume "i \<in> set [1..<?n]" "j \<in> set [1..<?n]"
      and eq: "''waypoint_'' @ string_of_nat i = ''waypoint_'' @ string_of_nat j"
    with numWaypointsOf_range(2) [of "calculateDistance (lat s) (lng s) (lat d) (lng d)"]
    have "i < 10" "j < 10" by auto
    with eq show "i = j" by (auto intro: string_of_nat_inj)
  qed
  then have "distinct (map (\<lambda>i. ''waypoint_'' @ string_of_nat i) [1..<?n])"
    by (simp add: distinct_map)
  then show ?thesis unfolding graphNodes_ids by auto
qed

lemma take_graphEdges:
  assumes nodes: "nodes = src # rest"
  shows "take (length nodes - 1) (graphEdges rt rnd nodes) =
     map (\<lambda>(k, y). makeEdge rt (rnd (length nodes - 2 + k)) src y) (enumerate 0 rest)"
  by (simp add: nodes graphEdges_def enumerate_append_eq take_map enumerate_map_Pair comp_def
      case_prod_unfold)

lemma neighborsOf_source_take:
  assumes nodes: "nodes = src # rest" and src: "node_id src = ''source''"
    and rest: "\<forall>n\<in>set rest. node_id n \<noteq> ''source''"
  shows "neighborsOf (buildGraph nodes (graphEdges rt rnd nodes)) ''source'' =
     map toEntry (take (length nodes - 1) (graphEdges rt rnd nodes))"
  unfolding neighborsOf_source [OF assms] take_graphEdges [OF nodes]
  by (simp add: comp_def case_prod_unfold)

lemma map_to_id_take:
  assumes nodes: "nodes = src # rest"
  shows "map to_id (take (length nodes - 1) (graphEdges rt rnd nodes)) = map node_id rest"
  unfolding take_graphEdges [OF nodes]
  by (simp add: comp_def case_prod_unfold flip: map_map [of node_id snd, unfolded comp_def])

lemma nodeId_toEntry [simp]: "nodeId (toEntry e) = to_id e" "nb_weight (toEntry e) = weight e"
  by (simp_all add: toEntry_def)

lemma hd_graphEdges:
  "nodes = src # dst # wps \<Longrightarrow>
   take (length nodes - 1) (graphEdges rt rnd nodes) =
     hd (graphEdges rt rnd nodes) # tl (take (length nodes - 1) (graphEdges rt rnd nodes)) \<and>
   to_id (hd (graphEdges rt rnd nodes)) = node_id dst"
  by (simp add: graphEdges_def enumerate_append_eq take_map enumerate_map_Pair comp_def
      case_prod_unfold enumerate_simps)

subsection \<open>When the computation returns\<close>

lemma first_iteration_generated:
  assumes nodes: "graphNodes s d rnd = sourceNode s # destNode d # wps"
    and wps: "\<forall>w\<in>set wps. node_id w \<noteq> ''source'' \<and> node_id w \<noteq> ''destination'' \<and> node_id w \<noteq> []"
  shows "pq (relaxAll (buildGraph (graphNodes s d rnd) (graphEdges rt rnd (graphNodes s d rnd))) ''source''
           ((initState (graphNodes s d rnd))\<lparr>pq := []\<rparr>)) =
         enqueueAll [(''destination'', weight (hd (graphEdges rt rnd (graphNodes s d rnd))))]
           (map toEntry (tl (take (length (graphNodes s d rnd) - 1) (graphEdges rt rnd (graphNodes s d rnd)))))"
    and "\<forall>e\<in>set (take (length (graphNodes s d rnd) - 1) (graphEdges rt rnd (graphNodes s d rnd))).
         distances (relaxAll (buildGraph (graphNodes s d rnd) (graphEdges rt rnd (graphNodes s d rnd))) ''source''
           ((initState (graphNodes s d rnd))\<lparr>pq := []\<rparr>)) (to_id e) = Some (Num (weight e))"
    and "directEdgeLightest s d rt rnd \<longleftrightarrow>
         (\<forall>e\<in>set (tl (take (length (graphNodes s d rnd) - 1) (graphEdges rt rnd (graphNodes s d rnd)))).
            weight (hd (graphEdges rt rnd (graphNodes s d rnd))) \<le> weight e)"
    and "''destination'' \<notin>
         nodeId ` set (map toEntry (tl (take (length (graphNodes s d rnd) - 1) (graphEdges rt rnd (graphNodes s d rnd)))))"
proof -
  let ?nodes = "graphNodes s d rnd"
  let ?ids = "node_id ` set ?nodes"
  let ?es = "graphEdges rt rnd ?nodes"
  let ?g = "buildGraph ?nodes ?es"
  let ?out = "take (length ?nodes - 1) ?es"
  let ?W = "weight (hd ?es)"
  let ?st1 = "relaxAll ?g ''source'' ((initState ?nodes)\<lparr>pq := []\<rparr>)"
  have l0: "neighborsOf ?g ''source'' = map toEntry ?out"
    by (rule neighborsOf_source_take [OF nodes]) (use wps in auto)
  have ids_out: "map to_id ?out = ''destination'' # map node_id wps"
    using map_to_id_take [OF nodes, of rt rnd] by simp
  from hd_graphEdges [OF nodes, of rt rnd]
  have out: "?out = hd ?es # tl ?out" and hd_id: "to_id (hd ?es) = ''destination''" by simp_all
  have ids_tl: "map to_id (tl ?out) = map node_id wps"
    using ids_out by (subst (asm) out) simp
  have "distinct (map node_id ?nodes)" by (rule distinct_graphNodes)
  then have "distinct (''destination'' # map node_id wps)" by (simp add: nodes)
  then have dist_out: "distinct (map to_id ?out)" by (simp only: ids_out)
  have fi: "pq ?st1 = enqueueAll (pq ((initState ?nodes)\<lparr>pq := []\<rparr>)) (map toEntry ?out) \<and>
     (\<forall>nb\<in>set (map toEntry ?out). distances ?st1 (nodeId nb) = Some (Num (nb_weight nb))) \<and>
     (\<forall>x. x \<notin> nodeId ` set (map toEntry ?out) \<longrightarrow>
        distances ?st1 x = distances ((initState ?nodes)\<lparr>pq := []\<rparr>) x)"
    unfolding relaxAll_def l0
  proof (rule first_iteration_state)
    show "distances ((initState ?nodes)\<lparr>pq := []\<rparr>) ''source'' = Some (Num 0)"
      by (simp add: initState_distances nodes)
    show "\<forall>nb\<in>set (map toEntry ?out).
        distances ((initState ?nodes)\<lparr>pq := []\<rparr>) (nodeId nb) = Some Infinity"
    proof
      fix nb assume "nb \<in> set (map toEntry ?out)"
      then have "nodeId nb \<in> set (map to_id ?out)" by auto
      then have "nodeId nb \<in> ?ids" "nodeId nb \<noteq> ''source''"
        unfolding ids_out using wps by (auto simp: nodes)
      then show "distances ((initState ?nodes)\<lparr>pq := []\<rparr>) (nodeId nb) = Some Infinity"
        by (simp add: initState_distances)
    qed
    show "distinct (map nodeId (map toEntry ?out))" using dist_out by (simp add: comp_def)
    have "nodeId ` set (map toEntry ?out) = set (map to_id ?out)" by (auto simp: image_iff)
    then show "''source'' \<notin> nodeId ` set (map toEntry ?out)"
      unfolding ids_out using wps by auto
  qed
  then have "pq ?st1 = enqueueAll [] (map toEntry ?out)" by simp
  also have "\<dots> = enqueueAll [(''destination'', ?W)] (map toEntry (tl ?out))"
    by (subst out) (simp add: enqueueAll_def enqueue_def hd_id)
  finally show "pq ?st1 = enqueueAll [(''destination'', ?W)] (map toEntry (tl ?out))" .
  from fi show "\<forall>e\<in>set ?out. distances ?st1 (to_id e) = Some (Num (weight e))" by simp
  have "set ?out = insert (hd ?es) (set (tl ?out))" using out by (metis list.simps(15))
  then show "directEdgeLightest s d rt rnd \<longleftrightarrow> (\<forall>e\<in>set (tl ?out). ?W \<le> weight e)"
    unfolding directEdgeLightest_def generateGraph_def Let_def by simp
  have "nodeId ` set (map toEntry (tl ?out)) = set (map to_id (tl ?out))" by (auto simp: image_iff)
  with wps show "''destination'' \<notin> nodeId ` set (map toEntry (tl ?out))"
    unfolding ids_tl by auto
qed

text \<open>The computation returns exactly when the direct edge is the lightest edge out of
  \<^verbatim>\<open>'source'\<close>: then \<^verbatim>\<open>'destination'\<close> is the second node to leave the queue and the route
  is source, destination. Otherwise a waypoint leaves the queue second, relaxing
  \<^verbatim>\<open>'source'\<close> from it gives \<^verbatim>\<open>'source'\<close> a predecessor, and the reconstruction never
  ends.\<close>

lemma findShortestPath_eq:
  "findShortestPath s d rt rnd =
     (if directEdgeLightest s d rt rnd then Some (makeResult [sourceNode s, destNode d]) else None)"
proof -
  obtain wps where nodes: "graphNodes s d rnd = sourceNode s # destNode d # wps"
    and wps: "\<forall>w\<in>set wps. node_id w \<noteq> ''source'' \<and> node_id w \<noteq> ''destination'' \<and> node_id w \<noteq> []"
    using graphNodes_shape by blast
  let ?nodes = "graphNodes s d rnd"
  let ?ids = "node_id ` set ?nodes"
  let ?es = "graphEdges rt rnd ?nodes"
  let ?g = "buildGraph ?nodes ?es"
  let ?out = "take (length ?nodes - 1) ?es"
  let ?W = "weight (hd ?es)"
  let ?st1 = "relaxAll ?g ''source'' ((initState ?nodes)\<lparr>pq := []\<rparr>)"
  have ok: "graphOK ?ids ?g"
    by (rule graphOK_buildGraph [OF nodes]) (use wps in auto)
  have dst: "''destination'' \<in> ?ids" by (simp add: nodes)
  have fr: "fresh ?ids ?st1" using ok by (rule fresh_first_iteration)
  note gen = first_iteration_generated [OF nodes wps, of rt]
  note pq1 = gen(1) and light = gen(3) and nd = gen(4)
  have on: "findShortestPath s d rt rnd = findShortestPathOn ?nodes ?es"
    by (simp add: findShortestPath_def generateGraph_def Let_def)
  show ?thesis
  proof (cases "directEdgeLightest s d rt rnd")
    case True
    with light have "\<forall>nb\<in>set (map toEntry (tl ?out)). snd (''destination'', ?W) \<le> nb_weight nb"
      by auto
    from enqueueAll_keeps_head [OF _ this, of "[]"] pq1
    obtain t' where q: "pq ?st1 = (''destination'', ?W) # t'" by auto
    then have run: "dijkstraLoop ?g (initState ?nodes) = Some (?st1\<lparr>pq := t'\<rparr>)"
      unfolding dijkstraLoop_initState by (subst dijkstraLoop.simps) simp
    have "fresh ?ids (?st1\<lparr>pq := t'\<rparr>)" using fr q by (rule fresh_dequeue)
    from reconstruct_fresh [OF this dst, of ?nodes]
    have "reconstruct ?nodes (previous (?st1\<lparr>pq := t'\<rparr>)) ''destination'' [] =
        Some [sourceNode s, destNode d]"
      by (simp add: nodes unshiftNode_def)
    with run True show ?thesis by (simp add: on findShortestPathOn_def)
  next
    case False
    with light obtain e where e: "e \<in> set (tl ?out)" "weight e < ?W" by (auto simp: not_le)
    from e have "toEntry e \<in> set (map toEntry (tl ?out))" "nb_weight (toEntry e) < ?W" by auto
    from enqueueAll_new_head [OF this nd] pq1
    obtain item items where q: "pq ?st1 = item # items" and ne: "fst item \<noteq> ''destination''"
      by auto
    from fr q have "fst item \<in> ?ids" by (auto simp: fresh_def sourceFree_def)
    with ok have ne': "fst item \<noteq> []" by (auto simp: graphOK_def)
    let ?st2 = "relaxAll ?g (fst item) (?st1\<lparr>pq := items\<rparr>)"
    have cy: "cyclic ?ids ?st2" using ok fr q ne by (rule fresh_step)
    have run: "dijkstraLoop ?g (initState ?nodes) = dijkstraLoop ?g ?st2"
      unfolding dijkstraLoop_initState using q ne ne' by (subst dijkstraLoop.simps) simp
    have "findShortestPathOn ?nodes ?es = None"
    proof (cases "dijkstraLoop ?g ?st2")
      case None
      with run show ?thesis by (simp add: findShortestPathOn_def)
    next
      case (Some st)
      from ok have wf: "wellFormed ?ids ?g" and ne: "[] \<notin> ?ids" by (simp_all add: graphOK_def)
      from cyclic_dijkstraLoop [OF Some wf cy] have "closedPrev ?ids (previous st)"
        by (simp add: cyclic_def)
      from reconstruct_cyclic [OF this ne dst] run Some show ?thesis
        by (simp add: findShortestPathOn_def)
    qed
    with False show ?thesis by (simp add: on)
  qed
qed

subsection \<open>Results, and the concrete inputs\<close>

lemma sumDistance_two: "sumDistance [a, b] = nodeDistance a b"
  by (simp add: sumDistance_def)

lemma length_makeDirections: "length (makeDirections p) = length p - 1"
  by (simp add: makeDirections_def)

lemma makeDirections_two: "makeDirections [a, b] = [makeDirection [a, b] 0]"
  by (simp add: makeDirections_def)




lemma findShortestPath_SomeD:
  "findShortestPath s d rt rnd = Some r \<Longrightarrow> r = makeResult [sourceNode s, destNode d]"
  by (simp add: findShortestPath_eq split: if_splits)

lemma path_makeResult [simp]: "path (makeResult p) = p" "directions (makeResult p) = makeDirections p"
  by (simp_all add: makeResult_def Let_def)

lemma weight_Shortest [simp]: "weight (makeEdge Shortest r a b) = nodeDistance a b"
  by (simp add: makeEdge_def Let_def)

lemma nodeDistance_nonneg: "0 \<le> nodeDistance a b"
  by (simp add: nodeDistance_def calculateDistance_nonneg)

lemma directEdgeLightest_Shortest:
  "directEdgeLightest s d Shortest rnd \<longleftrightarrow>
     (\<forall>i\<in>{1..<numWaypointsOf (calculateDistance (lat s) (lng s) (lat d) (lng d))}.
        nodeDistance (sourceNode s) (destNode d) \<le>
        nodeDistance (sourceNode s)
          (waypoint s d (numWaypointsOf (calculateDistance (lat s) (lng s) (lat d) (lng d))) rnd i))"
proof -
  let ?n = "numWaypointsOf (calculateDistance (lat s) (lng s) (lat d) (lng d))"
  let ?wps = "map (waypoint s d ?n rnd) [1..<?n]"
  have nodes: "graphNodes s d rnd = sourceNode s # destNode d # ?wps"
    by (simp add: graphNodes_def Let_def)
  let ?es = "graphEdges Shortest rnd (graphNodes s d rnd)"
  have hd: "hd ?es = makeEdge Shortest (rnd (length ?wps)) (sourceNode s) (destNode d)"
    by (simp add: nodes graphEdges_def enumerate_simps)
  have "map weight (take (length (graphNodes s d rnd) - 1) ?es) =
      map (nodeDistance (sourceNode s)) (destNode d # ?wps)"
    unfolding take_graphEdges [OF nodes]
    by (simp add: comp_def case_prod_unfold
        flip: map_map [of "nodeDistance (sourceNode s)" snd, unfolded comp_def])
  then have "weight ` set (take (length (graphNodes s d rnd) - 1) ?es) =
      nodeDistance (sourceNode s) ` set (destNode d # ?wps)"
    by (metis set_map)
  then have "(\<forall>v\<in>weight ` set (take (length (graphNodes s d rnd) - 1) ?es). weight (hd ?es) \<le> v) \<longleftrightarrow>
      (\<forall>v\<in>nodeDistance (sourceNode s) ` set (destNode d # ?wps). weight (hd ?es) \<le> v)"
    by simp
  then have "(\<forall>e\<in>set (take (length (graphNodes s d rnd) - 1) ?es). weight (hd ?es) \<le> weight e) \<longleftrightarrow>
      (\<forall>y\<in>set (destNode d # ?wps). weight (hd ?es) \<le> nodeDistance (sourceNode s) y)"
    unfolding ball_simps .
  then have "directEdgeLightest s d Shortest rnd \<longleftrightarrow>
      (\<forall>y\<in>set (destNode d # ?wps). weight (hd ?es) \<le> nodeDistance (sourceNode s) y)"
    unfolding directEdgeLightest_def generateGraph_def Let_def prod.case .
  then show ?thesis by (simp add: hd)
qed


lemma numWaypointsOf_small: "x < 300 \<Longrightarrow> numWaypointsOf x = 2"
proof -
  assume "x < 300"
  then have "x / 100 < 3" by simp
  then have "\<lfloor>x / 100\<rfloor> < 3" by (simp add: floor_less_iff)
  then show ?thesis by (simp add: numWaypointsOf_def)
qed

lemma ball_one_two: "(\<forall>i\<in>{1..<2::nat}. P i) \<longleftrightarrow> P 1"
proof -
  have "{1..<2::nat} = {1}" by auto
  then show ?thesis by simp
qed

lemma directEdgeLightest_same: "directEdgeLightest p p Shortest rnd"
proof -
  have "nodeDistance (sourceNode p) (destNode p) = 0"
    by (simp add: nodeDistance_def sourceNode_def destNode_def calculateDistance_same)
  then show ?thesis by (simp add: directEdgeLightest_Shortest nodeDistance_nonneg)
qed

lemma calculateDistance_le_iff:
  "calculateDistance a b c d \<le> calculateDistance a' b' c' d' \<longleftrightarrow>
     cosAngle a' b' c' d' \<le> cosAngle a b c d"
  using cosAngle_bounds [of a b c d] cosAngle_bounds [of a' b' c' d']
  by (simp add: calculateDistance_arccos arccos_le_mono)

lemma cos_prod_le:
  assumes "0 \<le> C" "C \<le> A" "A \<le> pi / 2"
  shows "cos A * cos B \<le> cos C"
proof -
  have "0 \<le> cos A" using assms by (intro cos_ge_zero) linarith+
  then have "cos A * cos B \<le> cos A * 1" by (intro mult_left_mono) simp_all
  also have "cos A \<le> cos C" using assms pi_gt_zero by (intro cos_monotone_0_pi_le) linarith+
  finally show ?thesis by simp
qed

lemma waypointsOf_origin_nearby:
  "numWaypointsOf (calculateDistance (lat origin) (lng origin) (lat nearby) (lng nearby)) = 2"
proof (rule numWaypointsOf_small)
  have "calculateDistance 0 0 0 (1 / 1000) = 6371 * (pi / 180000)"
    using calculateDistance_equator [of "1 / 1000" 0] by simp
  also have "\<dots> < 300" using pi_less_4 by simp
  finally show "calculateDistance (lat origin) (lng origin) (lat nearby) (lng nearby) < 300"
    by (simp add: origin_def nearby_def)
qed

lemma waypointsOf_origin_east2:
  "numWaypointsOf (calculateDistance (lat origin) (lng origin) (lat east2) (lng east2)) = 2"
proof (rule numWaypointsOf_small)
  have "calculateDistance 0 0 0 2 = 6371 * (pi / 90)"
    using calculateDistance_equator [of 2 0] by simp
  also have "\<dots> < 300" using pi_less_4 by simp
  finally show "calculateDistance (lat origin) (lng origin) (lat east2) (lng east2) < 300"
    by (simp add: origin_def east2_def)
qed

lemma not_lightest_origin_east2: "\<not> directEdgeLightest origin east2 Shortest halfDraws"
proof -
  have 1: "calculateDistance 0 0 0 2 = 6371 * (pi / 90)"
    using calculateDistance_equator [of 2 0] by simp
  have 2: "calculateDistance 0 0 0 1 = 6371 * (pi / 180)"
    using calculateDistance_equator [of 1 0] by simp
  show ?thesis
    unfolding directEdgeLightest_Shortest waypointsOf_origin_east2 ball_one_two
    using pi_gt_zero
    by (simp add: nodeDistance_def sourceNode_def destNode_def waypoint_def
        origin_def east2_def halfDraws_def 1 2)
qed

lemma not_lightest_origin_nearby: "\<not> directEdgeLightest origin nearby Shortest halfDraws"
proof -
  have 1: "calculateDistance 0 0 0 (1 / 1000) = 6371 * (pi / 180000)"
    using calculateDistance_equator [of "1 / 1000" 0] by simp
  have 2: "calculateDistance 0 0 0 (1 / 2000) = 6371 * (pi / 360000)"
    using calculateDistance_equator [of "1 / 2000" 0] by simp
  show ?thesis
    unfolding directEdgeLightest_Shortest waypointsOf_origin_nearby ball_one_two
    using pi_gt_zero
    by (simp add: nodeDistance_def sourceNode_def destNode_def waypoint_def
        origin_def nearby_def halfDraws_def 1 2)
qed

lemma lightest_origin_nearby_zero: "directEdgeLightest origin nearby Shortest zeroDraws"
proof -
  have "cos (toRadians (1 / 200)) * cos (toRadians (9 / 2000)) \<le> cos (toRadians (1 / 1000))"
    using pi_gt_zero by (intro cos_prod_le) (simp_all add: toRadians_def)
  then have "calculateDistance 0 0 0 (1 / 1000) \<le> calculateDistance 0 0 (- (1 / 200)) (- (9 / 2000))"
    by (simp add: calculateDistance_le_iff cosAngle_def toRadians_def)
  then show ?thesis
    unfolding directEdgeLightest_Shortest waypointsOf_origin_nearby ball_one_two
    by (simp add: nodeDistance_def sourceNode_def destNode_def waypoint_def
        origin_def nearby_def zeroDraws_def)
qed


lemma js_round_0 [simp]: "js_round 0 = 0"
  by (simp add: js_round_def)

lemma atan2_0_0: "atan2 0 0 = 0"
  by (simp add: atan2_def)

lemma js_mod_360: "js_mod 360 360 = 0"
  by (simp add: js_mod_def)

lemma js_mod_0: "js_mod 0 8 = 0"
  by (simp add: js_mod_def)

lemma calculateBearing_same: "calculateBearing a b a b = ''North''"
proof -
  have y: "sin (toRadians (b - b)) * cos (toRadians a) = 0" by (simp add: toRadians_def)
  have x: "cos (toRadians a) * sin (toRadians a) -
      sin (toRadians a) * cos (toRadians a) * cos (toRadians (b - b)) = 0"
    by (simp add: toRadians_def)
  have "compassNames ! 0 = ''North''" by (simp add: compassNames_def)
  then show ?thesis
    unfolding calculateBearing_def Let_def y x atan2_0_0
    by (simp add: js_mod_360 js_mod_0)
qed

lemma makeResult_same:
  "makeResult [sourceNode p, destNode p] =
     \<lparr>path = [sourceNode p, destNode p], totalDistance = 0, totalTime = 0,
      algorithm = ''Dijkstra's'',
      directions = [\<lparr>instruction = ''Start your journey from '' @ name p, leg_distance = 0,
                     direction = ''North''\<rparr>]\<rparr>"
proof -
  have "nodeDistance (sourceNode p) (destNode p) = 0"
    by (simp add: nodeDistance_def sourceNode_def destNode_def calculateDistance_same)
  moreover have "calculateBearing (lat (sourceNode p)) (lng (sourceNode p))
      (lat (destNode p)) (lng (destNode p)) = ''North''"
    by (simp add: sourceNode_def destNode_def calculateBearing_same)
  moreover have "name (sourceNode p) = name p" by (simp add: sourceNode_def)
  ultimately show ?thesis
    by (simp add: makeResult_def Let_def sumDistance_two makeDirections_two makeDirection_def)
qed

lemma findShortestPath_same:
  "findShortestPath p p Shortest rnd =
     Some \<lparr>path = [sourceNode p, destNode p], totalDistance = 0, totalTime = 0,
           algorithm = ''Dijkstra's'',
           directions = [\<lparr>instruction = ''Start your journey from '' @ name p, leg_distance = 0,
                          direction = ''North''\<rparr>]\<rparr>"
  by (simp add: findShortestPath_eq directEdgeLightest_same makeResult_same)

lemma directions_SomeD:
  "findShortestPath s d rt rnd = Some r \<Longrightarrow> directions r = makeDirections (path r)"
  by (drule findShortestPath_SomeD) simp

lemma makeDirections_short: "length p < 2 \<Longrightarrow> makeDirections p = []"
  by (cases p) (auto simp: makeDirections_def)


lemma weight_Safest: "weight (makeEdge Safest r a b) = nodeDistance a b * (6 / 5 - r * (2 / 5))"
  by (simp add: makeEdge_def Let_def algebra_simps)



lemma weight_nonneg:
  assumes "0 \<le> r" "r < 1"
  shows "0 \<le> weight (makeEdge rt r a b)"
proof (cases rt)
  case Shortest
  then show ?thesis by (simp add: nodeDistance_nonneg)
next
  case Safest
  from assms have "0 \<le> 6 / 5 - r * (2 / 5)" by simp
  with Safest show ?thesis by (simp add: weight_Safest nodeDistance_nonneg)
qed

lemma distance_makeEdge [simp]: "distance (makeEdge rt r a b) = nodeDistance a b"
  by (simp add: makeEdge_def Let_def)

lemma sumDistance_single: "sumDistance [n] = 0"
  by (simp add: sumDistance_def)

lemma makeResult_single:
  "makeResult [n] = \<lparr>path = [n], totalDistance = 0, totalTime = 0, algorithm = ''Dijkstra's'',
     directions = []\<rparr>"
  by (simp add: makeResult_def Let_def sumDistance_single makeDirections_def)

lemma reconstruct_unreached:
  "prev ''destination'' = Some None \<Longrightarrow>
   reconstruct nodes prev ''destination'' [] = Some (unshiftNode nodes ''destination'' [])"
  by (subst reconstruct.simps) (simp add: nextId_def)

text \<open>Two runs in \<^verbatim>\<open>'shortest'\<close> mode that both return, return the same result.\<close>

lemma shortest_results_agree:
  assumes "findShortestPath s d Shortest rnd1 = Some r1"
    and "findShortestPath s d Shortest rnd2 = Some r2"
  shows "r1 = r2"
  using findShortestPath_SomeD [OF assms(1)] findShortestPath_SomeD [OF assms(2)] by simp

subsection \<open>The triangle inequality of the great-circle distance\<close>

lemma gram:
  fixes a1 a2 a3 b1 b2 b3 c1 c2 c3 :: real
  shows "(a1*a1 + a2*a2 + a3*a3) * (b1*b1 + b2*b2 + b3*b3) * (c1*c1 + c2*c2 + c3*c3)
     - (a1*a1 + a2*a2 + a3*a3) * ((b1*c1 + b2*c2 + b3*c3) * (b1*c1 + b2*c2 + b3*c3))
     - (b1*b1 + b2*b2 + b3*b3) * ((a1*c1 + a2*c2 + a3*c3) * (a1*c1 + a2*c2 + a3*c3))
     - (c1*c1 + c2*c2 + c3*c3) * ((a1*b1 + a2*b2 + a3*b3) * (a1*b1 + a2*b2 + a3*b3))
     + 2 * (a1*b1 + a2*b2 + a3*b3) * (b1*c1 + b2*c2 + b3*c3) * (a1*c1 + a2*c2 + a3*c3)
     = (a1 * (b2*c3 - b3*c2) - a2 * (b1*c3 - b3*c1) + a3 * (b1*c2 - b2*c1))
       * (a1 * (b2*c3 - b3*c2) - a2 * (b1*c3 - b3*c1) + a3 * (b1*c2 - b2*c1))"
  by algebra

lemma unit_vector:
  "(cos p * cos l) * (cos p * cos l) + (cos p * sin l) * (cos p * sin l) + sin p * sin p = (1::real)"
proof -
  have "(cos p * cos l) * (cos p * cos l) + (cos p * sin l) * (cos p * sin l) + sin p * sin p =
      cos p * cos p * (cos l * cos l + sin l * sin l) + sin p * sin p"
    by (simp only: distrib_left mult_ac)
  also have "\<dots> = cos p * cos p * 1 + sin p * sin p"
    by (simp only: sin_cos_squared_add3)
  also have "\<dots> = 1"
    using sin_cos_squared_add3 [of p] by (simp only: mult_1_right)
  finally show ?thesis .
qed

lemma cosAngle_dot:
  "cosAngle lat1 lon1 lat2 lon2 =
     (cos (toRadians lat1) * cos (toRadians lon1)) * (cos (toRadians lat2) * cos (toRadians lon2)) +
     (cos (toRadians lat1) * sin (toRadians lon1)) * (cos (toRadians lat2) * sin (toRadians lon2)) +
     sin (toRadians lat1) * sin (toRadians lat2)"
  by (simp add: cosAngle_def toRadians_diff cos_diff algebra_simps)

lemma gram_cosAngle:
  "0 \<le> 1 - cosAngle a1 b1 a2 b2 * cosAngle a1 b1 a2 b2
         - cosAngle a1 b1 a3 b3 * cosAngle a1 b1 a3 b3
         - cosAngle a2 b2 a3 b3 * cosAngle a2 b2 a3 b3
         + 2 * cosAngle a1 b1 a2 b2 * cosAngle a2 b2 a3 b3 * cosAngle a1 b1 a3 b3"
proof -
  let ?u1 = "cos (toRadians a1) * cos (toRadians b1)" and ?u2 = "cos (toRadians a1) * sin (toRadians b1)"
    and ?u3 = "sin (toRadians a1)"
  let ?v1 = "cos (toRadians a2) * cos (toRadians b2)" and ?v2 = "cos (toRadians a2) * sin (toRadians b2)"
    and ?v3 = "sin (toRadians a2)"
  let ?w1 = "cos (toRadians a3) * cos (toRadians b3)" and ?w2 = "cos (toRadians a3) * sin (toRadians b3)"
    and ?w3 = "sin (toRadians a3)"
  have u: "?u1 * ?u1 + ?u2 * ?u2 + ?u3 * ?u3 = 1" by (rule unit_vector)
  have v: "?v1 * ?v1 + ?v2 * ?v2 + ?v3 * ?v3 = 1" by (rule unit_vector)
  have w: "?w1 * ?w1 + ?w2 * ?w2 + ?w3 * ?w3 = 1" by (rule unit_vector)
  note g = gram [of ?u1 ?u2 ?u3 ?v1 ?v2 ?v3 ?w1 ?w2 ?w3, unfolded u v w]
  have "0 \<le> (?u1 * (?v2 * ?w3 - ?v3 * ?w2) - ?u2 * (?v1 * ?w3 - ?v3 * ?w1) + ?u3 * (?v1 * ?w2 - ?v2 * ?w1))
       * (?u1 * (?v2 * ?w3 - ?v3 * ?w2) - ?u2 * (?v1 * ?w3 - ?v3 * ?w1) + ?u3 * (?v1 * ?w2 - ?v2 * ?w1))"
    by simp
  then show ?thesis unfolding g [symmetric] cosAngle_dot by simp
qed

lemma arccos_triangle:
  fixes x y z :: real
  assumes x: "\<bar>x\<bar> \<le> 1" and y: "\<bar>y\<bar> \<le> 1" and z: "\<bar>z\<bar> \<le> 1"
    and g: "0 \<le> 1 - x * x - y * y - z * z + 2 * x * z * y"
  shows "arccos y \<le> arccos x + arccos z"
proof (cases "arccos x + arccos z \<le> pi")
  case False
  moreover have "arccos y \<le> pi" using y by (intro arccos_ubound) (simp_all add: abs_le_iff)
  ultimately show ?thesis by simp
next
  case True
  have bx: "- 1 \<le> x" "x \<le> 1" and bz: "- 1 \<le> z" "z \<le> 1" using x z by (simp_all add: abs_le_iff)
  have nn: "0 \<le> arccos x + arccos z"
    using arccos_lbound [OF bx] arccos_lbound [OF bz] by simp
  have "(x * z - y) * (x * z - y) \<le> (1 - x * x) * (1 - z * z)"
    using g by (simp add: algebra_simps)
  then have "sqrt ((x * z - y) * (x * z - y)) \<le> sqrt ((1 - x * x) * (1 - z * z))"
    by (rule real_sqrt_le_mono)
  then have "\<bar>x * z - y\<bar> \<le> sqrt (1 - x * x) * sqrt (1 - z * z)"
    by (simp add: real_sqrt_mult)
  then have "x * z - sqrt (1 - x\<^sup>2) * sqrt (1 - z\<^sup>2) \<le> y"
    by (simp add: power2_eq_square abs_le_iff)
  then have "cos (arccos x + arccos z) \<le> y"
    by (simp add: cos_add cos_arccos [OF bx] cos_arccos [OF bz] sin_arccos [OF bx] sin_arccos [OF bz])
  moreover have "\<bar>cos (arccos x + arccos z)\<bar> \<le> 1" by (rule abs_cos_le_one)
  ultimately have "arccos y \<le> arccos (cos (arccos x + arccos z))"
    using y by (simp add: arccos_le_mono)
  also have "\<dots> = arccos x + arccos z" using nn True by (rule arccos_cos)
  finally show ?thesis .
qed

lemma calculateDistance_triangle:
  "calculateDistance a1 b1 a3 b3 \<le> calculateDistance a1 b1 a2 b2 + calculateDistance a2 b2 a3 b3"
proof -
  have "arccos (cosAngle a1 b1 a3 b3) \<le> arccos (cosAngle a1 b1 a2 b2) + arccos (cosAngle a2 b2 a3 b3)"
    by (rule arccos_triangle [OF cosAngle_bounds cosAngle_bounds cosAngle_bounds])
      (use gram_cosAngle [of a1 b1 a2 b2 a3 b3] in \<open>simp add: algebra_simps\<close>)
  then show ?thesis by (simp add: calculateDistance_arccos)
qed

lemma nodeDistance_triangle: "nodeDistance a c \<le> nodeDistance a b + nodeDistance b c"
  unfolding nodeDistance_def by (rule calculateDistance_triangle)

lemma nodeDistance_sym: "nodeDistance a b = nodeDistance b a"
  unfolding nodeDistance_def by (rule calculateDistance_sym)

subsection \<open>The distance of the code is the great-circle distance\<close>

lemma nodeDistance_greatCircleKm: "nodeDistance m n = greatCircleKm m n"
  by (simp add: nodeDistance_def greatCircleKm_def position_def calculateDistance_arccos
      cosAngle_dot toRadians_def)

lemma legSum_greatCircleSum: "legSum p = greatCircleSum p"
  by (simp add: legSum_def greatCircleSum_def nodeDistance_greatCircleKm)


lemma greatCircleSum_two: "greatCircleSum [a, b] = greatCircleKm a b"
  by (simp add: greatCircleSum_def)

subsection \<open>The distance that the solver stores for the destination\<close>

lemma lowerBound_nonneg: "0 \<le> lowerBound src n"
  by (simp add: lowerBound_def nodeDistance_nonneg)

lemma relax_cases_alt:
  "relax cur st nb = st \<or>
   (\<exists>alt. js_plus (orZero (distances st cur)) (nb_weight nb) = Num alt \<and>
      js_less (Num alt) (orInfinity (distances st (nodeId nb))) \<and>
      relax cur st nb =
        \<lparr>distances = (distances st)(nodeId nb \<mapsto> Num alt),
         previous = (previous st)(nodeId nb \<mapsto> Some cur),
         pq = enqueue (nodeId nb) alt (pq st)\<rparr>)"
  by (auto simp: relax_def Let_def split: jsnum.splits)

lemma bounded_relax:
  assumes b: "bounded nodes src W st" and inj: "inj_on node_id (set nodes)"
    and src: "src \<in> set nodes" "node_id src = ''source''"
    and dst: "dst \<in> set nodes" "node_id dst = ''destination''"
    and W: "W = nodeDistance src dst" "0 < W"
    and a: "a \<in> set nodes" and bn: "b \<in> set nodes"
    and nb: "nodeId nb = node_id b" "nb_weight nb = nodeDistance a b"
  shows "bounded nodes src W (relax (node_id a) st nb)"
proof -
  from relax_cases_alt [of "node_id a" st nb] show ?thesis
  proof (elim disjE exE conjE)
    assume "relax (node_id a) st nb = st"
    with b show ?thesis by simp
  next
    fix alt
    assume plus: "js_plus (orZero (distances st (node_id a))) (nb_weight nb) = Num alt"
      and less: "js_less (Num alt) (orInfinity (distances st (nodeId nb)))"
      and eq: "relax (node_id a) st nb =
        \<lparr>distances = (distances st)(nodeId nb \<mapsto> Num alt),
         previous = (previous st)(nodeId nb \<mapsto> Some (node_id a)),
         pq = enqueue (nodeId nb) alt (pq st)\<rparr>"
    from b a obtain x where x: "distances st (node_id a) = Some x"
      "\<forall>v. x = Num v \<longrightarrow> lowerBound src a \<le> v" by (auto simp: bounded_def)
    from plus x(1) obtain v where v: "x = Num v" "alt = v + nodeDistance a b"
      by (cases x) (auto simp: nb split: if_splits)
    with x(2) have va: "lowerBound src a \<le> v" by simp
    have lb: "lowerBound src b \<le> alt"
    proof (cases "node_id b = ''source''")
      case True
      with va lowerBound_nonneg [of src a] nodeDistance_nonneg [of a b] v(2)
      show ?thesis by (simp add: lowerBound_def)
    next
      case False
      show ?thesis
      proof (cases "node_id a = ''source''")
        case True
        with inj_on_eq_iff [OF inj a src(1)] src(2) have "a = src" by simp
        with va lowerBound_nonneg [of src a] v(2) False show ?thesis by (simp add: lowerBound_def)
      next
        case na: False
        with va have "nodeDistance src a \<le> v" by (simp add: lowerBound_def)
        with nodeDistance_triangle [of src b a] v(2) False show ?thesis
          by (simp add: lowerBound_def)
      qed
    qed
    have nd: "node_id b \<noteq> ''destination''"
    proof
      assume d: "node_id b = ''destination''"
      with inj_on_eq_iff [OF inj bn dst(1)] dst(2) have "b = dst" by simp
      with lb dst(2) W(1) have "W \<le> alt" by (simp add: lowerBound_def)
      moreover from b d nb(1) W(2) less have "alt < W" by (simp add: bounded_def)
      ultimately show False by simp
    qed
    show ?thesis
      unfolding bounded_def eq
    proof (intro conjI ballI)
      fix n assume n: "n \<in> set nodes"
      show "\<exists>x. distances \<lparr>distances = (distances st)(nodeId nb \<mapsto> Num alt),
         previous = (previous st)(nodeId nb \<mapsto> Some (node_id a)),
         pq = enqueue (nodeId nb) alt (pq st)\<rparr> (node_id n) = Some x \<and>
         (\<forall>v. x = Num v \<longrightarrow> lowerBound src n \<le> v)"
      proof (cases "node_id n = node_id b")
        case True
        with inj_on_eq_iff [OF inj n bn] have "n = b" by simp
        with lb show ?thesis by (simp add: nb(1))
      next
        case False
        with b n show ?thesis by (simp add: bounded_def nb(1))
      qed
    next
      fix e assume "e \<in> set (pq \<lparr>distances = (distances st)(nodeId nb \<mapsto> Num alt),
         previous = (previous st)(nodeId nb \<mapsto> Some (node_id a)),
         pq = enqueue (nodeId nb) alt (pq st)\<rparr>)"
      with b bn show "fst e \<in> node_id ` set nodes"
        by (auto simp: set_enqueue bounded_def nb(1))
    next
      from b nd show "distances \<lparr>distances = (distances st)(nodeId nb \<mapsto> Num alt),
         previous = (previous st)(nodeId nb \<mapsto> Some (node_id a)),
         pq = enqueue (nodeId nb) alt (pq st)\<rparr> ''destination'' = Some (Num W)"
        by (simp add: bounded_def nb(1))
    qed
  qed
qed


lemma bounded_foldl:
  assumes inj: "inj_on node_id (set nodes)"
    and src: "src \<in> set nodes" "node_id src = ''source''"
    and dst: "dst \<in> set nodes" "node_id dst = ''destination''"
    and W: "W = nodeDistance src dst" "0 < W"
    and a: "a \<in> set nodes"
  shows "bounded nodes src W st \<Longrightarrow>
    \<forall>nb\<in>set l. \<exists>b\<in>set nodes. nodeId nb = node_id b \<and> nb_weight nb = nodeDistance a b \<Longrightarrow>
    bounded nodes src W (foldl (relax (node_id a)) st l)"
proof (induction l arbitrary: st)
  case Nil
  then show ?case by simp
next
  case (Cons nb l)
  from Cons.prems(2) obtain b where b: "b \<in> set nodes" "nodeId nb = node_id b"
    "nb_weight nb = nodeDistance a b" by auto
  have "bounded nodes src W (relax (node_id a) st nb)"
    using Cons.prems(1) inj src dst W a b by (rule bounded_relax)
  with Cons.IH Cons.prems(2) show ?case by simp
qed

lemma bounded_dequeue:
  "bounded nodes src W st \<Longrightarrow> pq st = item # items \<Longrightarrow> bounded nodes src W (st\<lparr>pq := items\<rparr>)"
  by (auto simp: bounded_def)

lemma bounded_dijkstraLoop:
  assumes run: "dijkstraLoop graph st = Some st'"
    and inj: "inj_on node_id (set nodes)"
    and src: "src \<in> set nodes" "node_id src = ''source''"
    and dst: "dst \<in> set nodes" "node_id dst = ''destination''"
    and W: "W = nodeDistance src dst" "0 < W"
    and adj: "metricAdjacency nodes graph"
    and b0: "bounded nodes src W st"
  shows "bounded nodes src W st'"
proof -
  have "metricAdjacency nodes graph \<longrightarrow> bounded nodes src W st \<longrightarrow> bounded nodes src W st'"
  proof (rule dijkstraLoop.raw_induct
      [where P = "\<lambda>g s y. metricAdjacency nodes g \<longrightarrow> bounded nodes src W s \<longrightarrow> bounded nodes src W y",
        OF _ run])
    fix loop g s y
    assume IH: "\<And>g s y. loop g s = Some y \<Longrightarrow>
        metricAdjacency nodes g \<longrightarrow> bounded nodes src W s \<longrightarrow> bounded nodes src W y"
    assume step: "(case pq s of [] \<Rightarrow> Some s
        | item # items \<Rightarrow>
            if fst item = [] then Some (s\<lparr>pq := items\<rparr>)
            else if fst item = ''destination'' then Some (s\<lparr>pq := items\<rparr>)
                 else loop g (relaxAll g (fst item) (s\<lparr>pq := items\<rparr>))) = Some y"
    show "metricAdjacency nodes g \<longrightarrow> bounded nodes src W s \<longrightarrow> bounded nodes src W y"
    proof (intro impI)
      assume adj: "metricAdjacency nodes g" and b: "bounded nodes src W s"
      show "bounded nodes src W y"
      proof (cases "pq s")
        case Nil
        with step b show ?thesis by simp
      next
        case (Cons item items)
        note b1 = bounded_dequeue [OF b Cons]
        show ?thesis
        proof (cases "fst item = [] \<or> fst item = ''destination''")
          case True
          with step Cons b1 show ?thesis by auto
        next
          case False
          with step Cons have l: "loop g (relaxAll g (fst item) (s\<lparr>pq := items\<rparr>)) = Some y"
            by auto
          from b Cons obtain a where a: "a \<in> set nodes" "fst item = node_id a"
            by (auto simp: bounded_def)
          from adj a(1) have "\<forall>nb\<in>set (neighborsOf g (node_id a)).
              \<exists>b\<in>set nodes. nodeId nb = node_id b \<and> nb_weight nb = nodeDistance a b"
            by (simp add: metricAdjacency_def)
          from bounded_foldl [OF inj src dst W a(1) b1 this]
          have "bounded nodes src W (relaxAll g (fst item) (s\<lparr>pq := items\<rparr>))"
            by (simp add: relaxAll_def a(2))
          with IH [OF l] adj show ?thesis by blast
        qed
      qed
    qed
  qed
  with adj b0 show ?thesis by blast
qed

lemma nb_weight_entriesFor: "nb \<in> set (entriesFor k e) \<Longrightarrow> nb_weight nb = weight e"
  by (auto simp: entriesFor_def split: if_splits)

lemma metricAdjacency_generated:
  assumes inj: "inj_on node_id (set nodes)"
  shows "metricAdjacency nodes (buildGraph nodes (graphEdges Shortest rnd nodes))"
  unfolding metricAdjacency_def
proof (intro ballI)
  fix a nb
  assume a: "a \<in> set nodes"
    and "nb \<in> set (neighborsOf (buildGraph nodes (graphEdges Shortest rnd nodes)) (node_id a))"
  then obtain e where e: "e \<in> set (graphEdges Shortest rnd nodes)" "nb \<in> set (entriesFor (node_id a) e)"
    by (auto simp: neighborsOf_buildGraph split: if_splits)
  from graphEdges_D [OF e(1)] obtain x y r where
    xy: "(x, y) \<in> set (allPairs nodes)" "e = makeEdge Shortest r x y" by blast
  from allPairs_subset [OF xy(1)] have mem: "x \<in> set nodes" "y \<in> set nodes" by simp_all
  have w: "nb_weight nb = nodeDistance x y" using nb_weight_entriesFor [OF e(2)] xy(2) by simp
  from nodeId_entriesFor [OF e(2)]
  show "\<exists>b\<in>set nodes. nodeId nb = node_id b \<and> nb_weight nb = nodeDistance a b"
  proof
    assume "from_id e = node_id a \<and> nodeId nb = to_id e"
    then have "node_id x = node_id a" "nodeId nb = node_id y" by (simp_all add: xy(2))
    with inj_on_eq_iff [OF inj mem(1) a] have "x = a" by simp
    with w mem(2) \<open>nodeId nb = node_id y\<close> show ?thesis by auto
  next
    assume "to_id e = node_id a \<and> nodeId nb = from_id e"
    then have "node_id y = node_id a" "nodeId nb = node_id x" by (simp_all add: xy(2))
    with inj_on_eq_iff [OF inj mem(2) a] have "y = a" by simp
    with w mem(1) \<open>nodeId nb = node_id x\<close> nodeDistance_sym [of x a] show ?thesis by auto
  qed
qed

lemma legSum_Cons:
  "legSum (a # b # p) = nodeDistance a b + legSum (b # p)"
  by (simp add: legSum_def sum.lessThan_Suc_shift del: sum.lessThan_Suc)

lemma chain_ge_direct: "nodeDistance a (last (a # p)) \<le> legSum (a # p)"
proof (induction p arbitrary: a)
  case Nil
  then show ?case by (simp add: legSum_def nodeDistance_def calculateDistance_same)
next
  case (Cons b p)
  have "nodeDistance a (last (a # b # p)) = nodeDistance a (last (b # p))" by simp
  also have "\<dots> \<le> nodeDistance a b + nodeDistance b (last (b # p))" by (rule nodeDistance_triangle)
  also have "\<dots> \<le> nodeDistance a b + legSum (b # p)" using Cons.IH [of b] by simp
  finally show ?case by (simp add: legSum_Cons)
qed

lemma dijkstraLoop_direct:
  assumes light: "directEdgeLightest s d rt rnd"
  shows "dijkstraLoop (buildGraph (graphNodes s d rnd) (graphEdges rt rnd (graphNodes s d rnd)))
      (initState (graphNodes s d rnd)) =
    Some ((relaxAll (buildGraph (graphNodes s d rnd) (graphEdges rt rnd (graphNodes s d rnd))) ''source''
            ((initState (graphNodes s d rnd))\<lparr>pq := []\<rparr>))
          \<lparr>pq := tl (pq (relaxAll (buildGraph (graphNodes s d rnd) (graphEdges rt rnd (graphNodes s d rnd)))
                          ''source'' ((initState (graphNodes s d rnd))\<lparr>pq := []\<rparr>)))\<rparr>)"
proof -
  obtain wps where nodes: "graphNodes s d rnd = sourceNode s # destNode d # wps"
    and wps: "\<forall>w\<in>set wps. node_id w \<noteq> ''source'' \<and> node_id w \<noteq> ''destination'' \<and> node_id w \<noteq> []"
    using graphNodes_shape by blast
  let ?nodes = "graphNodes s d rnd"
  let ?es = "graphEdges rt rnd ?nodes"
  let ?g = "buildGraph ?nodes ?es"
  let ?out = "take (length ?nodes - 1) ?es"
  let ?W = "weight (hd ?es)"
  let ?st1 = "relaxAll ?g ''source'' ((initState ?nodes)\<lparr>pq := []\<rparr>)"
  note gen = first_iteration_generated [OF nodes wps, of rt]
  from light gen(3)
  have "\<forall>nb\<in>set (map toEntry (tl ?out)). snd (''destination'', ?W) \<le> nb_weight nb" by auto
  from enqueueAll_keeps_head [OF _ this, of "[]"] gen(1)
  obtain t' where q: "pq ?st1 = (''destination'', ?W) # t'" by auto
  then show ?thesis
    unfolding dijkstraLoop_initState by (subst dijkstraLoop.simps) simp
qed

lemma out_edges:
  assumes nodes: "nodes = src # rest" and n: "n \<in> set rest"
  shows "\<exists>r. makeEdge rt r src n \<in> set (take (length nodes - 1) (graphEdges rt rnd nodes))"
proof -
  from n obtain i where "i < length rest" "rest ! i = n" by (auto simp: in_set_conv_nth)
  then have "(i, n) \<in> set (enumerate 0 rest)" by (simp add: in_set_enumerate_eq)
  then obtain p where p: "p \<in> set (enumerate 0 rest)" "snd p = n" by force
  then have "(\<lambda>(k, y). makeEdge rt (rnd (length nodes - 2 + k)) src y) p
      \<in> set (take (length nodes - 1) (graphEdges rt rnd nodes))"
    unfolding take_graphEdges [OF nodes] by simp
  with p(2) show ?thesis by (auto simp: case_prod_unfold)
qed

lemma solver_distance_destination:
  assumes run: "dijkstraLoop (buildGraph (graphNodes s d rnd) (graphEdges Shortest rnd (graphNodes s d rnd)))
      (initState (graphNodes s d rnd)) = Some st"
  shows "distances st ''destination'' = Some (Num (nodeDistance (sourceNode s) (destNode d)))"
proof -
  obtain wps where nodes: "graphNodes s d rnd = sourceNode s # destNode d # wps"
    and wps: "\<forall>w\<in>set wps. node_id w \<noteq> ''source'' \<and> node_id w \<noteq> ''destination'' \<and> node_id w \<noteq> []"
    using graphNodes_shape by blast
  let ?nodes = "graphNodes s d rnd"
  let ?ids = "node_id ` set ?nodes"
  let ?es = "graphEdges Shortest rnd ?nodes"
  let ?g = "buildGraph ?nodes ?es"
  let ?out = "take (length ?nodes - 1) ?es"
  let ?W = "nodeDistance (sourceNode s) (destNode d)"
  let ?st1 = "relaxAll ?g ''source'' ((initState ?nodes)\<lparr>pq := []\<rparr>)"
  note gen = first_iteration_generated [OF nodes wps, of Shortest]
  have ok: "graphOK ?ids ?g"
    by (rule graphOK_buildGraph [OF nodes]) (use wps in auto)
  have fr: "fresh ?ids ?st1" using ok by (rule fresh_first_iteration)
  have d1: "distances ?st1 (node_id n) = Some (Num (nodeDistance (sourceNode s) n))"
    if "n \<in> set (destNode d # wps)" for n
  proof -
    from out_edges [OF nodes that, of Shortest rnd] obtain r where
      "makeEdge Shortest r (sourceNode s) n \<in> set ?out" by blast
    with gen(2) show ?thesis by fastforce
  qed
  from d1 [of "destNode d"] have dd: "distances ?st1 ''destination'' = Some (Num ?W)" by simp
  show ?thesis
  proof (cases "0 < ?W")
    case False
    with nodeDistance_nonneg [of "sourceNode s" "destNode d"] have "?W = 0" by simp
    then have "directEdgeLightest s d Shortest rnd"
      by (simp add: directEdgeLightest_Shortest nodeDistance_nonneg)
    from dijkstraLoop_direct [OF this] run dd show ?thesis by auto
  next
    case True
    have inj: "inj_on node_id (set ?nodes)"
      using distinct_graphNodes [of s d rnd] by (simp add: distinct_map)
    have b1: "bounded ?nodes (sourceNode s) ?W ?st1"
      unfolding bounded_def
    proof (intro conjI ballI)
      fix n assume "n \<in> set ?nodes"
      then consider "n = sourceNode s" | "n \<in> set (destNode d # wps)" by (auto simp: nodes)
      then show "\<exists>x. distances ?st1 (node_id n) = Some x \<and>
          (\<forall>v. x = Num v \<longrightarrow> lowerBound (sourceNode s) n \<le> v)"
      proof cases
        case 1
        with fr show ?thesis by (simp add: fresh_def sourceFree_def lowerBound_def)
      next
        case 2
        from d1 [OF this] show ?thesis by (simp add: lowerBound_def nodeDistance_nonneg)
      qed
    next
      fix e assume "e \<in> set (pq ?st1)"
      with fr show "fst e \<in> ?ids" by (simp add: fresh_def sourceFree_def)
    qed (rule dd)
    have "bounded ?nodes (sourceNode s) ?W st"
    proof (rule bounded_dijkstraLoop [OF _ inj _ _ _ _ refl True _ b1])
      show "dijkstraLoop ?g ?st1 = Some st" using run by (simp add: dijkstraLoop_initState)
      show "sourceNode s \<in> set ?nodes" "destNode d \<in> set ?nodes" by (simp_all add: nodes)
      show "metricAdjacency ?nodes ?g" using inj by (rule metricAdjacency_generated)
    qed simp_all
    then show ?thesis by (simp add: bounded_def)
  qed
qed

subsection \<open>Exact arithmetic: what rounding breaks\<close>

text \<open>In exact arithmetic every returned path starts with the source and ends with the
  destination.\<close>

lemma exact_path_endpoints:
  assumes "findShortestPath s d rt rnd = Some r"
  shows "path r = [sourceNode s, destNode d]"
  using findShortestPath_SomeD [OF assms] by simp

text \<open>In exact arithmetic the distance that the solver has stored for \<^verbatim>\<open>'destination'\<close>
  when its loop ends, in \<^verbatim>\<open>'shortest'\<close> mode, is at most the sum of the distances along
  the chain source, waypoint 1, ..., waypoint n, destination.\<close>

lemma exact_distance_bound:
  assumes gen: "generateGraph s d Shortest rnd = (nodes, edges)"
    and run: "dijkstraLoop (buildGraph nodes edges) (initState nodes) = Some st"
  shows "\<exists>v. distances st ''destination'' = Some (Num v) \<and> v \<le> greatCircleSum (literalChain nodes)"
proof -
  from gen have n: "nodes = graphNodes s d rnd" and e: "edges = graphEdges Shortest rnd (graphNodes s d rnd)"
    by (auto simp: generateGraph_def Let_def)
  obtain wps where nodes: "graphNodes s d rnd = sourceNode s # destNode d # wps"
    using graphNodes_shape by blast
  have "nodeDistance (sourceNode s) (last (sourceNode s # wps @ [destNode d]))
      \<le> legSum (sourceNode s # wps @ [destNode d])"
    by (rule chain_ge_direct)
  then have "nodeDistance (sourceNode s) (destNode d) \<le> greatCircleSum (literalChain nodes)"
    by (simp add: n nodes literalChain_def legSum_greatCircleSum)
  with solver_distance_destination [OF run [unfolded n e]] show ?thesis by simp
qed

text \<open>In exact arithmetic no edge has a negative weight.\<close>

lemma exact_weights_nonneg:
  assumes rnd: "\<forall>k. 0 \<le> rnd k \<and> rnd k < 1"
    and e: "e \<in> set (snd (generateGraph s d rt rnd))"
  shows "0 \<le> weight e \<and> 0 \<le> distance e"
proof -
  from e obtain i a b where i: "i < length (allPairs (graphNodes s d rnd))"
    and e': "e = makeEdge rt (rnd (length (graphNodes s d rnd) - 2 + i)) a b"
    by (auto simp: generateGraph_def Let_def graphEdges_def in_set_enumerate_eq)
  let ?k = "length (graphNodes s d rnd) - 2 + i"
  from rnd have r: "0 \<le> rnd ?k" "rnd ?k < 1" by simp_all
  have "0 \<le> weight e" unfolding e' using r by (rule weight_nonneg)
  moreover have "0 \<le> distance e" by (simp add: e' nodeDistance_nonneg)
  ultimately show ?thesis by blast
qed

text \<open>The two antipodal points are half the circumference apart.\<close>

lemma calculateDistance_antipodal: "calculateDistance (- 82) 0 82 180 = 6371 * pi"
proof -
  have "cosAngle (- 82) 0 82 180 =
      - (sin (41 * pi / 90) * sin (41 * pi / 90)) - cos (41 * pi / 90) * cos (41 * pi / 90)"
    by (simp add: cosAngle_def toRadians_def)
  also have "\<dots> = - 1"
    using sin_cos_squared_add3 [of "41 * pi / 90"] by linarith
  finally show ?thesis by (simp add: calculateDistance_arccos)
qed

subsection \<open>The run from (0, 0) to (0, 0.001) with every draw 0\<close>

lemma nearby_generated: "generateGraph origin nearby rt zeroDraws = (nearbyNodes, graphEdges rt zeroDraws nearbyNodes)"
  by (simp add: generateGraph_def Let_def nearbyNodes_def)

lemma nearby_run:
  "dijkstraLoop (buildGraph nearbyNodes nearbyEdges) (initState nearbyNodes) = Some nearbyFinal"
  using dijkstraLoop_direct [OF lightest_origin_nearby_zero]
  by (simp add: nearbyNodes_def nearbyEdges_def nearbyFinal_def Let_def)

lemma nearby_reconstruct:
  "reconstruct nearbyNodes (previous nearbyFinal) ''destination'' [] =
     Some [sourceNode origin, destNode nearby]"
proof -
  have "findShortestPathOn nearbyNodes nearbyEdges = Some (makeResult [sourceNode origin, destNode nearby])"
    using findShortestPath_eq [of origin nearby Shortest zeroDraws] lightest_origin_nearby_zero
    by (simp add: findShortestPath_def nearby_generated nearbyEdges_def)
  then obtain p where p: "reconstruct nearbyNodes (previous nearbyFinal) ''destination'' [] = Some p"
    and "makeResult p = makeResult [sourceNode origin, destNode nearby]"
    by (auto simp: findShortestPathOn_def nearby_run split: option.splits)
  from this(2) have "path (makeResult p) = path (makeResult [sourceNode origin, destNode nearby])"
    by simp
  then show ?thesis using p by simp
qed

lemma nearby_distance:
  "nodeDistance (sourceNode origin) (destNode nearby) = 6371 * (pi / 180000)"
  using calculateDistance_equator [of "1 / 1000" 0]
  by (simp add: nodeDistance_def sourceNode_def destNode_def origin_def nearby_def)

lemma nearby_rounded: "js_round (6371 * pi / 18000) = 1"
proof -
  have "2 \<le> pi" "pi < 4" using pi_ge_two pi_less_4 by simp_all
  then have "1 \<le> 6371 * pi / 18000 + 1 / 2" "6371 * pi / 18000 + 1 / 2 < 2"
    by simp_all
  then show ?thesis unfolding js_round_def by (intro floor_unique) simp_all
qed

subsection \<open>The run from (0, 0) to (0, 2)\<close>

lemma upt_1_2: "[1..<2] = [1::nat]"
  by (simp add: upt_rec)

lemma east2Nodes_eq: "east2Nodes = [sourceNode origin, destNode east2, midpoint1]"
proof -
  have "waypoint origin east2 2 halfDraws 1 = midpoint1"
    by (simp add: waypoint_def midpoint1_def origin_def east2_def halfDraws_def string_of_nat.simps)
  then show ?thesis
    unfolding east2Nodes_def graphNodes_def Let_def waypointsOf_origin_east2 upt_1_2 by simp
qed

lemma east2_distances:
  "nodeDistance (sourceNode origin) (destNode east2) = 6371 * (pi / 90)"
  "nodeDistance (sourceNode origin) midpoint1 = 6371 * (pi / 180)"
  "nodeDistance (destNode east2) midpoint1 = 6371 * (pi / 180)"
  using calculateDistance_equator [of 2 0] calculateDistance_equator [of 1 0]
    calculateDistance_equator [of 1 2]
  by (simp_all add: nodeDistance_def sourceNode_def destNode_def midpoint1_def origin_def east2_def)

lemma east2_edges:
  "graphEdges Shortest halfDraws east2Nodes =
     [makeEdge Shortest (1 / 2) (sourceNode origin) (destNode east2),
      makeEdge Shortest (1 / 2) (sourceNode origin) midpoint1,
      makeEdge Shortest (1 / 2) (destNode east2) midpoint1]"
  by (simp add: east2Nodes_eq graphEdges_def enumerate_simps halfDraws_def)

lemma east2_neighbors:
  "neighborsOf east2Graph ''waypoint_1'' =
     [\<lparr>nodeId = ''source'', nb_weight = 6371 * (pi / 180), nb_distance = 6371 * (pi / 180)\<rparr>,
      \<lparr>nodeId = ''destination'', nb_weight = 6371 * (pi / 180), nb_distance = 6371 * (pi / 180)\<rparr>]"
  unfolding east2Graph_def neighborsOf_buildGraph east2_edges
  by (simp add: east2Nodes_eq entriesFor_def midpoint1_def east2_distances [unfolded midpoint1_def])

lemma east2_first_iteration:
  fixes st1
  defines "st1 \<equiv> relaxAll east2Graph ''source'' ((initState east2Nodes)\<lparr>pq := []\<rparr>)"
  shows "pq st1 = [(''waypoint_1'', 6371 * (pi / 180)), (''destination'', 6371 * (pi / 90))]"
    and "distances st1 ''source'' = Some (Num 0)"
    and "distances st1 ''waypoint_1'' = Some (Num (6371 * (pi / 180)))"
    and "distances st1 ''destination'' = Some (Num (6371 * (pi / 90)))"
    and "fresh (node_id ` set east2Nodes) st1"
    and "graphOK (node_id ` set east2Nodes) east2Graph"
proof -
  have nodes: "graphNodes origin east2 halfDraws = sourceNode origin # destNode east2 # [midpoint1]"
    using east2Nodes_eq by (simp add: east2Nodes_def)
  have wps: "\<forall>w\<in>set [midpoint1]. node_id w \<noteq> ''source'' \<and> node_id w \<noteq> ''destination'' \<and> node_id w \<noteq> []"
    by (simp add: midpoint1_def)
  note gen = first_iteration_generated [OF nodes wps, of Shortest,
      folded east2Nodes_def, folded east2Graph_def, folded st1_def]
  have out: "take (length east2Nodes - 1) (graphEdges Shortest halfDraws east2Nodes) =
      [makeEdge Shortest (1 / 2) (sourceNode origin) (destNode east2),
       makeEdge Shortest (1 / 2) (sourceNode origin) midpoint1]"
    by (simp add: east2_edges) (simp add: east2Nodes_eq)
  have hd: "hd (graphEdges Shortest halfDraws east2Nodes) =
      makeEdge Shortest (1 / 2) (sourceNode origin) (destNode east2)"
    by (simp add: east2_edges)
  from gen(1) show "pq st1 = [(''waypoint_1'', 6371 * (pi / 180)), (''destination'', 6371 * (pi / 90))]"
    unfolding out hd using pi_gt_zero
    by (simp add: enqueueAll_def enqueue_def east2_distances midpoint1_def
        east2_distances [unfolded midpoint1_def])
  from gen(2) show "distances st1 ''waypoint_1'' = Some (Num (6371 * (pi / 180)))"
    and "distances st1 ''destination'' = Some (Num (6371 * (pi / 90)))"
    unfolding out by (simp_all add: east2_distances) (simp add: midpoint1_def)
  show ok: "graphOK (node_id ` set east2Nodes) east2Graph"
    unfolding east2Graph_def
    by (rule graphOK_buildGraph [OF east2Nodes_eq]) (simp_all add: midpoint1_def)
  then show fr: "fresh (node_id ` set east2Nodes) st1"
    unfolding st1_def by (rule fresh_first_iteration)
  then show "distances st1 ''source'' = Some (Num 0)" by (simp add: fresh_def sourceFree_def)
qed

lemma east2_trace:
  "dijkstraLoop east2Graph (initState east2Nodes) = Some east2Final"
  "pq east2Final = [(''source'', 6371 * (pi / 90))]"
  "previous east2Final ''destination'' = Some (Some ''source'')"
  "previous east2Final ''source'' = Some (Some ''waypoint_1'')"
  "previous east2Final ''waypoint_1'' = Some (Some ''source'')"
  "distances east2Final ''destination'' = Some (Num (6371 * (pi / 90)))"
  "distances east2Final ''source'' = Some (Num (6371 * (pi / 90)))"
proof -
  let ?A = "6371 * (pi / 180)" and ?D = "6371 * (pi / 90)"
  define st1 where "st1 = relaxAll east2Graph ''source'' ((initState east2Nodes)\<lparr>pq := []\<rparr>)"
  define st1' where "st1' = st1\<lparr>pq := tl (pq st1)\<rparr>"
  define st2 where "st2 = relaxAll east2Graph ''waypoint_1'' st1'"
  note fi = east2_first_iteration [folded st1_def]
  have AD: "?A + ?A = ?D" by simp
  have s1: "distances st1' = distances st1" "previous st1' = previous st1"
    "pq st1' = [(''destination'', ?D)]"
    by (simp_all add: st1'_def fi(1))
  have r1: "relax ''waypoint_1'' st1' \<lparr>nodeId = ''source'', nb_weight = ?A, nb_distance = ?A\<rparr> =
      \<lparr>distances = (distances st1)(''source'' \<mapsto> Num ?D),
       previous = (previous st1)(''source'' \<mapsto> Some ''waypoint_1''),
       pq = [(''destination'', ?D), (''source'', ?D)]\<rparr>"
    unfolding relax_def Let_def s1 by (simp add: fi(2-4) enqueue_def AD)
  have r2: "relax ''waypoint_1''
      \<lparr>distances = (distances st1)(''source'' \<mapsto> Num ?D),
       previous = (previous st1)(''source'' \<mapsto> Some ''waypoint_1''),
       pq = [(''destination'', ?D), (''source'', ?D)]\<rparr>
      \<lparr>nodeId = ''destination'', nb_weight = ?A, nb_distance = ?A\<rparr> =
      \<lparr>distances = (distances st1)(''source'' \<mapsto> Num ?D),
       previous = (previous st1)(''source'' \<mapsto> Some ''waypoint_1''),
       pq = [(''destination'', ?D), (''source'', ?D)]\<rparr>"
    unfolding relax_def Let_def using pi_gt_zero by (simp add: fi(2-4) AD)
  have st2: "st2 =
      \<lparr>distances = (distances st1)(''source'' \<mapsto> Num ?D),
       previous = (previous st1)(''source'' \<mapsto> Some ''waypoint_1''),
       pq = [(''destination'', ?D), (''source'', ?D)]\<rparr>"
    unfolding st2_def relaxAll_def east2_neighbors by (simp only: foldl.simps r1 r2)
  have fin: "east2Final = st2\<lparr>pq := tl (pq st2)\<rparr>"
    by (simp add: east2Final_def Let_def st2_def st1'_def st1_def)
  have "dijkstraLoop east2Graph (initState east2Nodes) = dijkstraLoop east2Graph st1"
    unfolding st1_def by (rule dijkstraLoop_initState)
  also have "\<dots> = dijkstraLoop east2Graph st2"
    unfolding st2_def st1'_def by (subst dijkstraLoop.simps) (simp add: fi(1))
  also have "\<dots> = Some east2Final"
    unfolding fin by (subst dijkstraLoop.simps) (simp add: st2)
  finally show "dijkstraLoop east2Graph (initState east2Nodes) = Some east2Final" .
  from fi(5) have p: "previous st1 ''destination'' = Some (Some ''source'')"
    "previous st1 ''waypoint_1'' = Some (Some ''source'')"
    by (simp_all add: fresh_def reached_def east2Nodes_eq midpoint1_def)
  show "pq east2Final = [(''source'', ?D)]" by (simp add: fin st2)
  from p show "previous east2Final ''destination'' = Some (Some ''source'')"
    "previous east2Final ''waypoint_1'' = Some (Some ''source'')"
    by (simp_all add: fin st2)
  show "previous east2Final ''source'' = Some (Some ''waypoint_1'')" by (simp add: fin st2)
  show "distances east2Final ''destination'' = Some (Num ?D)" by (simp add: fin st2 fi(4))
  show "distances east2Final ''source'' = Some (Num ?D)" by (simp add: fin st2)
qed

lemma east2_reconstruct:
  "reconstruct east2Nodes (previous east2Final) ''destination'' [] = None"
proof (rule reconstruct_cyclic)
  show "closedPrev (node_id ` set east2Nodes) (previous east2Final)"
    by (simp add: closedPrev_def east2Nodes_eq midpoint1_def east2_trace)
qed (simp_all add: east2Nodes_eq midpoint1_def)

lemma east2_init: "distances (initState east2Nodes) ''source'' = Some (Num 0)"
  by (simp add: initState_distances east2Nodes_eq)

section \<open>Lemmas on the computation in binary64 arithmetic\<close>

subsection \<open>Rounding to binary64\<close>

lemma roundEven_near:
  assumes "\<bar>x - of_int m\<bar> < 1 / 2"
  shows "roundEven x = m"
proof (cases "of_int m \<le> x")
  case True
  with assms have "\<lfloor>x\<rfloor> = m" by (intro floor_unique) auto
  with assms True show ?thesis by (simp add: roundEven_def Let_def)
next
  case False
  with assms have f: "\<lfloor>x\<rfloor> = m - 1" by (intro floor_unique) auto
  from assms False have "\<not> x - of_int (m - 1) < 1 / 2" "1 / 2 < x - of_int (m - 1)" by auto
  with f show ?thesis by (simp add: roundEven_def Let_def)
qed

lemma fl_eqI:
  fixes k :: nat
  assumes lo: "2 ^ 52 \<le> \<bar>x\<bar> * 2 ^ k" and hi: "\<bar>x\<bar> * 2 ^ k < 2 ^ 53"
    and near: "\<bar>x * 2 ^ k - of_int m\<bar> < 1 / 2"
    and y: "y = of_int m / 2 ^ k" and k: "k \<le> 1074"
  shows "fl x = y"
proof -
  have p: "(2::real) powr (of_int (52 - int k)) = 2 ^ 52 / 2 ^ k"
    by (simp add: powr_diff powr_realpow flip: powr_realpow)
  have p1: "(2::real) powr (of_int (52 - int k) + 1) = 2 ^ 53 / 2 ^ k"
    by (simp add: powr_diff powr_add powr_realpow flip: powr_realpow)
  from lo have x0: "x \<noteq> 0" by auto
  then have pos: "0 < \<bar>x\<bar>" by simp
  have "2 powr (of_int (52 - int k)) \<le> \<bar>x\<bar>" unfolding p using lo by (simp add: field_simps)
  moreover have "\<bar>x\<bar> < 2 powr (of_int (52 - int k) + 1)" unfolding p1 using hi by (simp add: field_simps)
  ultimately have e: "\<lfloor>log 2 \<bar>x\<bar>\<rfloor> = 52 - int k"
    using floor_log_eq_powr_iff [of "\<bar>x\<bar>" 2 "52 - int k"] pos by simp
  have q: "(2::real) powr (- real k) = 1 / 2 ^ k"
    by (simp add: powr_minus powr_realpow field_simps)
  have "roundEven (x * 2 ^ k) = m" using near by (rule roundEven_near)
  from k have "max (52 - int k) (- 1022) = 52 - int k" by simp
  with \<open>roundEven (x * 2 ^ k) = m\<close> show ?thesis using x0 by (simp add: fl_def Let_def e q y)
qed

lemma fl_0: "fl 0 = 0" by (simp add: fl_def)

lemma fl_1: "fl 1 = 1"
  by (rule fl_eqI [where k = 52 and m = 4503599627370496]) simp_all

text \<open>Away from the antipodes the rounded distance is a number: that of a point from
  itself is 0.\<close>

lemma calculateDistance64_same: "calculateDistance64 la lo la lo = Fin 0"
  by (simp add: calculateDistance64_def Let_def toRadians64_def sin64_def cos64_def fl_0 fl_1
      sqrt64_def atan2_def)

subsection \<open>Enclosures of sine and cosine by their Taylor series\<close>

lemma sinTerm: "taylorTerm 2 x (x * x) k = x ^ (2 * k + 1) / fact (2 * k + 1)"
  by (induction k) (simp_all add: field_simps)

lemma cosTerm: "taylorTerm 1 1 (x * x) k = x ^ (2 * k) / fact (2 * k)"
proof (induction k)
  case 0
  show ?case by simp
next
  case (Suc k)
  have "taylorTerm 1 1 (x * x) (Suc k) =
      x ^ (2 * k) / fact (2 * k) * (x * x) / (real (2 * k + 1) * real (2 * k + 1 + 1))"
    by (simp only: taylorTerm.simps Suc.IH)
  also have "\<dots> = x ^ (2 * Suc k) / fact (2 * Suc k)"
    by (simp add: field_simps)
  finally show ?case .
qed

lemma sin_coeff_sum:
  "(\<Sum>m<2 * n. sin_coeff m * x ^ m) = (\<Sum>k<n. (- 1) ^ k * taylorTerm 2 x (x * x) k)"
  by (induction n) (simp_all add: sinTerm sin_coeff_def)

lemma cos_coeff_sum:
  "(\<Sum>m<2 * n. cos_coeff m * x ^ m) = (\<Sum>k<n. (- 1) ^ k * taylorTerm 1 1 (x * x) k)"
  by (induction n) (simp_all add: cosTerm cos_coeff_def del: One_nat_def)

lemma encloses_nth:
  assumes "encloses off X k b bs" and "0 \<le> X" and "0 \<le> fst b"
    and "fst b \<le> taylorTerm off t0 X k" and "taylorTerm off t0 X k \<le> snd b"
    and "j < length bs" and "0 < off"
  shows "fst (bs ! j) \<le> taylorTerm off t0 X (Suc (k + j)) \<and>
         taylorTerm off t0 X (Suc (k + j)) \<le> snd (bs ! j)"
  using assms
proof (induction bs arbitrary: k b j)
  case Nil
  then show ?case by simp
next
  case (Cons b' bs)
  let ?d = "real (2 * k + off) * real (2 * k + off + 1)"
  let ?t = "taylorTerm off t0 X k"
  from Cons.prems have d: "0 < ?d" by simp
  from Cons.prems have c: "0 \<le> fst b'" "fst b' * ?d \<le> fst b * X" "snd b * X \<le> snd b' * ?d"
    "encloses off X (Suc k) b' bs" by simp_all
  have "fst b * X \<le> ?t * X" using Cons.prems by (intro mult_right_mono) simp_all
  with c have 1: "fst b' \<le> ?t * X / ?d" using d by (simp add: field_simps)
  have "?t * X \<le> snd b * X" using Cons.prems by (intro mult_right_mono) simp_all
  with c have 2: "?t * X / ?d \<le> snd b'" using d by (simp add: field_simps)
  show ?case
  proof (cases j)
    case 0
    with 1 2 show ?thesis by simp
  next
    case (Suc i)
    with Cons.prems have i: "i < length bs" by simp
    from Cons.IH [OF c(4) Cons.prems(2) c(1) _ _ i Cons.prems(7)] 1 2
    show ?thesis by (simp add: Suc)
  qed
qed

lemma alt_bounds:
  assumes "\<forall>j<length bs. fst (bs ! j) \<le> t (k + j) \<and> t (k + j) \<le> snd (bs ! j)"
  shows "altLo bs \<le> (\<Sum>j<length bs. (- 1) ^ j * t (k + j)) \<and>
         (\<Sum>j<length bs. (- 1) ^ j * t (k + j)) \<le> altHi bs"
  using assms
proof (induction bs arbitrary: k)
  case Nil
  show ?case by simp
next
  case (Cons b bs)
  have "\<forall>j<length bs. fst (bs ! j) \<le> t (Suc k + j) \<and> t (Suc k + j) \<le> snd (bs ! j)"
  proof (intro allI impI)
    fix j assume "j < length bs"
    with Cons.prems [rule_format, of "Suc j"] show "fst (bs ! j) \<le> t (Suc k + j) \<and> t (Suc k + j) \<le> snd (bs ! j)"
      by simp
  qed
  from Cons.IH [OF this]
  have ih: "altLo bs \<le> (\<Sum>j<length bs. (- 1) ^ j * t (Suc k + j))"
    "(\<Sum>j<length bs. (- 1) ^ j * t (Suc k + j)) \<le> altHi bs" by simp_all
  from Cons.prems [rule_format, of 0] have b: "fst b \<le> t k" "t k \<le> snd b" by simp_all
  have "(\<Sum>j<length (b # bs). (- 1) ^ j * t (k + j)) =
      t k - (\<Sum>j<length bs. (- 1) ^ j * t (Suc k + j))"
    by (simp add: sum.lessThan_Suc_shift sum_negf del: sum.lessThan_Suc)
  with ih b show ?case by simp
qed

lemma sin_enclosure:
  assumes x: "0 \<le> x" "x \<le> 2" and enc: "encloses 2 (x * x) 0 (x, x) bs" and ne: "bs \<noteq> []"
  shows "altLo ((x, x) # bs) - snd (last bs) \<le> sin x \<and>
         sin x \<le> altHi ((x, x) # bs) + snd (last bs)"
proof -
  let ?t = "taylorTerm 2 x (x * x)"
  let ?all = "(x, x) # bs"
  let ?l = "length bs"
  have nth: "fst (bs ! j) \<le> ?t (Suc j) \<and> ?t (Suc j) \<le> snd (bs ! j)" if "j < ?l" for j
    using encloses_nth [OF enc _ _ _ _ that, of x] x by simp
  have "\<forall>j<length ?all. fst (?all ! j) \<le> ?t (0 + j) \<and> ?t (0 + j) \<le> snd (?all ! j)"
  proof (intro allI impI)
    fix j assume "j < length ?all"
    then show "fst (?all ! j) \<le> ?t (0 + j) \<and> ?t (0 + j) \<le> snd (?all ! j)"
      using nth [of "j - 1"] by (cases j) simp_all
  qed
  from alt_bounds [OF this]
  have s: "altLo ?all \<le> (\<Sum>j<Suc ?l. (- 1) ^ j * ?t j)" "(\<Sum>j<Suc ?l. (- 1) ^ j * ?t j) \<le> altHi ?all"
    by simp_all
  from ne obtain l where l: "?l = Suc l" by (cases bs) auto
  have last: "last bs = bs ! l" using ne l by (simp add: last_conv_nth)
  have tl: "0 \<le> ?t ?l" "?t ?l \<le> snd (last bs)"
    using nth [of l] l last x by (simp_all add: sinTerm)
  have "inverse (fact (2 * Suc ?l)) * \<bar>x\<bar> ^ (2 * Suc ?l) = ?t ?l * (x / real (2 * ?l + 2))"
    using x by (simp add: sinTerm field_simps)
  also have "\<dots> \<le> ?t ?l * 1"
    using tl x by (intro mult_left_mono) (simp_all add: field_simps)
  finally have r: "inverse (fact (2 * Suc ?l)) * \<bar>x\<bar> ^ (2 * Suc ?l) \<le> snd (last bs)"
    using tl by simp
  from Maclaurin_sin_bound [of x "2 * Suc ?l"] r
  have "\<bar>sin x - (\<Sum>j<Suc ?l. (- 1) ^ j * ?t j)\<bar> \<le> snd (last bs)"
    unfolding sin_coeff_sum by simp
  with s show ?thesis by (simp add: abs_le_iff)
qed

lemma cos_enclosure:
  assumes x: "x * x \<le> 4" and enc: "encloses 1 (x * x) 0 (1, 1) bs" and ne: "bs \<noteq> []"
  shows "altLo ((1, 1) # bs) - snd (last bs) \<le> cos x \<and>
         cos x \<le> altHi ((1, 1) # bs) + snd (last bs)"
proof -
  let ?t = "taylorTerm 1 1 (x * x)"
  let ?all = "(1, 1) # bs"
  let ?l = "length bs"
  have nth: "fst (bs ! j) \<le> ?t (Suc j) \<and> ?t (Suc j) \<le> snd (bs ! j)" if "j < ?l" for j
    using encloses_nth [OF enc _ _ _ _ that, of 1] by simp
  have "\<forall>j<length ?all. fst (?all ! j) \<le> ?t (0 + j) \<and> ?t (0 + j) \<le> snd (?all ! j)"
  proof (intro allI impI)
    fix j assume "j < length ?all"
    then show "fst (?all ! j) \<le> ?t (0 + j) \<and> ?t (0 + j) \<le> snd (?all ! j)"
      using nth [of "j - 1"] by (cases j) simp_all
  qed
  from alt_bounds [OF this]
  have s: "altLo ?all \<le> (\<Sum>j<Suc ?l. (- 1) ^ j * ?t j)" "(\<Sum>j<Suc ?l. (- 1) ^ j * ?t j) \<le> altHi ?all"
    by simp_all
  from ne obtain l where l: "?l = Suc l" by (cases bs) auto
  have last: "last bs = bs ! l" using ne l by (simp add: last_conv_nth)
  have t0: "0 \<le> ?t j" for j unfolding cosTerm by (simp add: power_mult)
  have tl: "?t ?l \<le> snd (last bs)"
    using nth [of l] l last by simp
  have "?t (Suc ?l) = ?t ?l * (x * x / (real (2 * ?l + 1) * real (2 * ?l + 1 + 1)))"
    by (simp only: taylorTerm.simps times_divide_eq_right)
  also have "\<dots> \<le> ?t ?l * 1"
  proof (intro mult_left_mono t0)
    have "1 * 4 \<le> real (2 * ?l + 1) * real (2 * ?l + 1 + 1)"
      using l by (intro mult_mono) simp_all
    with x have "x * x \<le> real (2 * ?l + 1) * real (2 * ?l + 1 + 1)" by simp
    then show "x * x / (real (2 * ?l + 1) * real (2 * ?l + 1 + 1)) \<le> 1"
      by (subst divide_le_eq_1_pos) simp_all
  qed
  finally have r: "?t (Suc ?l) \<le> snd (last bs)" using tl by simp
  obtain u where u: "cos x = (\<Sum>m<2 * Suc ?l. cos_coeff m * x ^ m) +
      (cos (u + 1 / 2 * real (2 * Suc ?l) * pi) / fact (2 * Suc ?l)) * x ^ (2 * Suc ?l)"
    using Maclaurin_cos_expansion [of x "2 * Suc ?l"] by blast
  have "\<bar>(cos (u + 1 / 2 * real (2 * Suc ?l) * pi) / fact (2 * Suc ?l)) * x ^ (2 * Suc ?l)\<bar>
      = \<bar>cos (u + 1 / 2 * real (2 * Suc ?l) * pi)\<bar> * ?t (Suc ?l)"
    unfolding cosTerm by (simp add: abs_mult power2_eq_square power_mult)
  also have "\<dots> \<le> 1 * ?t (Suc ?l)"
    using t0 [of "Suc ?l"] by (intro mult_right_mono) simp_all
  finally have "\<bar>cos x - (\<Sum>m<2 * Suc ?l. cos_coeff m * x ^ m)\<bar> \<le> snd (last bs)"
    using r u by simp
  then have "\<bar>cos x - (\<Sum>j<Suc ?l. (- 1) ^ j * ?t j)\<bar> \<le> snd (last bs)"
    unfolding cos_coeff_sum .
  with s show ?thesis by (simp add: abs_le_iff)
qed

lemma fl_between:
  fixes k :: nat
  assumes lo: "(of_int m - 1 / 2) / 2 ^ k < y" and hi: "y < (of_int m + 1 / 2) / 2 ^ k"
    and m: "2 ^ 52 < m" "m < 2 ^ 53" and v: "v = of_int m / 2 ^ k" and k: "k \<le> 1074"
  shows "fl y = v"
proof (rule fl_eqI [OF _ _ _ v k])
  from lo have 1: "of_int m - 1 / 2 < y * 2 ^ k" by (simp add: field_simps)
  from hi have 2: "y * 2 ^ k < of_int m + 1 / 2" by (simp add: field_simps)
  from m have "2 ^ 52 + 1 \<le> m" "m \<le> 2 ^ 53 - 1" by simp_all
  then have "real_of_int (2 ^ 52 + 1) \<le> of_int m" "real_of_int m \<le> of_int (2 ^ 53 - 1)"
    by (simp_all only: of_int_le_iff)
  then have 3: "4503599627370497 \<le> real_of_int m" "real_of_int m \<le> 9007199254740991"
    by simp_all
  define z where "z = y * 2 ^ k"
  from 1 3 have "0 < z" unfolding z_def by linarith
  then have y: "0 < y" by (simp add: z_def zero_less_mult_iff)
  from 1 2 3 have "4503599627370496 \<le> z" "z < 9007199254740992" unfolding z_def by linarith+
  with y show "2 ^ 52 \<le> \<bar>y\<bar> * 2 ^ k" "\<bar>y\<bar> * 2 ^ k < 2 ^ 53" by (simp_all add: z_def)
  from 1 2 show "\<bar>y * 2 ^ k - of_int m\<bar> < 1 / 2" unfolding z_def [symmetric] by linarith
qed

lemma sin_82:
  "(8919541810762874 - 1 / 2) / 2 ^ 53 < sin (6445416618514801 / 2 ^ 52 :: real)"
  "sin (6445416618514801 / 2 ^ 52 :: real) < (8919541810762874 + 1 / 2) / 2 ^ 53"
proof -
  let ?x = "6445416618514801 / 2 ^ 52 :: real"
  let ?bs = "[(590638921853832791440897 / 2 ^ 80, 590638921853832791440898 / 2 ^ 80),
             (60488735659521375224928 / 2 ^ 80, 60488735659521375224929 / 2 ^ 80),
             (2949902463011974504688 / 2 ^ 80, 2949902463011974504689 / 2 ^ 80),
             (83918478270976726661 / 2 ^ 80, 83918478270976726662 / 2 ^ 80),
             (1562598326309851807 / 2 ^ 80, 1562598326309851808 / 2 ^ 80),
             (20516590790099093 / 2 ^ 80, 20516590790099094 / 2 ^ 80),
             (200109792490911 / 2 ^ 80, 200109792490912 / 2 ^ 80),
             (1506891133557 / 2 ^ 80, 1506891133558 / 2 ^ 80),
             (9024812991 / 2 ^ 80, 9024812992 / 2 ^ 80),
             (44012026 / 2 ^ 80, 44012027 / 2 ^ 80),
             (178157 / 2 ^ 80, 178158 / 2 ^ 80),
             (608 / 2 ^ 80, 609 / 2 ^ 80)]"
  have "encloses 2 (?x * ?x) 0 (?x, ?x) ?bs" by simp
  from sin_enclosure [OF _ _ this]
  have "altLo ((?x, ?x) # ?bs) - snd (last ?bs) \<le> sin ?x \<and>
        sin ?x \<le> altHi ((?x, ?x) # ?bs) + snd (last ?bs)" by simp
  then show "(8919541810762874 - 1 / 2) / 2 ^ 53 < sin (6445416618514801 / 2 ^ 52 :: real)"
    and "sin (6445416618514801 / 2 ^ 52 :: real) < (8919541810762874 + 1 / 2) / 2 ^ 53" by simp_all
qed

lemma cos_82:
  "(5014239404989978 - 1 / 2) / 2 ^ 55 < cos (6445416618514801 / 2 ^ 52 :: real)"
  "cos (6445416618514801 / 2 ^ 52 :: real) < (5014239404989978 + 1 / 2) / 2 ^ 55"
proof -
  let ?x = "6445416618514801 / 2 ^ 52 :: real"
  let ?bs = "[(1238089662379824273735018 / 2 ^ 80, 1238089662379824273735019 / 2 ^ 80),
             (211326174473966885067653 / 2 ^ 80, 211326174473966885067654 / 2 ^ 80),
             (14428277167571073162448 / 2 ^ 80, 14428277167571073162449 / 2 ^ 80),
             (527726483570554281792 / 2 ^ 80, 527726483570554281793 / 2 ^ 80),
             (12010160742553268989 / 2 ^ 80, 12010160742553268990 / 2 ^ 80),
             (186361985481774269 / 2 ^ 80, 186361985481774270 / 2 ^ 80),
             (2097337783347790 / 2 ^ 80, 2097337783347791 / 2 ^ 80),
             (17899445565301 / 2 ^ 80, 17899445565302 / 2 ^ 80),
             (119812075748 / 2 ^ 80, 119812075749 / 2 ^ 80),
             (645802074 / 2 ^ 80, 645802075 / 2 ^ 80),
             (2863122 / 2 ^ 80, 2863123 / 2 ^ 80),
             (10623 / 2 ^ 80, 10624 / 2 ^ 80)]"
  have "encloses 1 (?x * ?x) 0 (1, 1) ?bs" by simp
  from cos_enclosure [OF _ this]
  have "altLo ((1, 1) # ?bs) - snd (last ?bs) \<le> cos ?x \<and>
        cos ?x \<le> altHi ((1, 1) # ?bs) + snd (last ?bs)" by simp
  then show "(5014239404989978 - 1 / 2) / 2 ^ 55 < cos (6445416618514801 / 2 ^ 52 :: real)"
    and "cos (6445416618514801 / 2 ^ 52 :: real) < (5014239404989978 + 1 / 2) / 2 ^ 55" by simp_all
qed

lemma sin_90:
  "1 - 1 / 2 ^ 54 < sin (884279719003555 / 2 ^ 49 :: real)"
proof -
  let ?x = "884279719003555 / 2 ^ 49 :: real"
  let ?bs = "[(780922676019362898631427 / 2 ^ 80, 780922676019362898631428 / 2 ^ 80),
             (96342473501889784954990 / 2 ^ 80, 96342473501889784954991 / 2 ^ 80),
             (5659893455274322974068 / 2 ^ 80, 5659893455274322974069 / 2 ^ 80),
             (193961490819001078451 / 2 ^ 80, 193961490819001078452 / 2 ^ 80),
             (4350734507793332090 / 2 ^ 80, 4350734507793332091 / 2 ^ 80),
             (68814148150782710 / 2 ^ 80, 68814148150782711 / 2 ^ 80),
             (808533832674023 / 2 ^ 80, 808533832674024 / 2 ^ 80),
             (7334475251276 / 2 ^ 80, 7334475251277 / 2 ^ 80),
             (52915474575 / 2 ^ 80, 52915474576 / 2 ^ 80),
             (310865952 / 2 ^ 80, 310865953 / 2 ^ 80),
             (1515871 / 2 ^ 80, 1515872 / 2 ^ 80),
             (6233 / 2 ^ 80, 6234 / 2 ^ 80)]"
  have "encloses 2 (?x * ?x) 0 (?x, ?x) ?bs" by simp
  from sin_enclosure [OF _ _ this]
  have "altLo ((?x, ?x) # ?bs) - snd (last ?bs) \<le> sin ?x" by simp
  then show ?thesis by simp
qed


subsection \<open>The distance between the antipodal points (-82, 0) and (82, 180)\<close>

lemma toRadians64_values:
  "toRadians64 164 = 6445416618514801 / 2 ^ 51"
  "toRadians64 180 = 884279719003555 / 2 ^ 48"
  "toRadians64 82 = 6445416618514801 / 2 ^ 52"
  "toRadians64 (- 82) = - (6445416618514801 / 2 ^ 52)"
proof -
  have k: "fl (Math_PI / 180) = 5030569068109113 / 2 ^ 58"
    unfolding Math_PI_def by (rule fl_eqI [where k = 58 and m = 5030569068109113]) simp_all
  show "toRadians64 164 = 6445416618514801 / 2 ^ 51"
    unfolding toRadians64_def k by (rule fl_eqI [where k = 51 and m = 6445416618514801]) simp_all
  show "toRadians64 180 = 884279719003555 / 2 ^ 48"
    unfolding toRadians64_def k by (rule fl_eqI [where k = 51 and m = 7074237752028440]) simp_all
  show "toRadians64 82 = 6445416618514801 / 2 ^ 52"
    unfolding toRadians64_def k by (rule fl_eqI [where k = 52 and m = 6445416618514801]) simp_all
  show "toRadians64 (- 82) = - (6445416618514801 / 2 ^ 52)"
    unfolding toRadians64_def k by (rule fl_eqI [where k = 52 and m = "- 6445416618514801"]) simp_all
qed

lemma fl_values:
  "fl 164 = 164"
  "fl 180 = 180"
  "fl (6445416618514801 / 2 ^ 51 / 2) = 6445416618514801 / 2 ^ 52"
  "fl (884279719003555 / 2 ^ 48 / 2) = 884279719003555 / 2 ^ 49"
proof -
  show "fl 164 = 164" by (rule fl_eqI [where k = 45 and m = 5770237022568448]) simp_all
  show "fl 180 = 180" by (rule fl_eqI [where k = 45 and m = 6333186975989760]) simp_all
  show "fl (6445416618514801 / 2 ^ 51 / 2) = 6445416618514801 / 2 ^ 52"
    by (rule fl_eqI [where k = 52 and m = 6445416618514801]) simp_all
  show "fl (884279719003555 / 2 ^ 48 / 2) = 884279719003555 / 2 ^ 49"
    by (rule fl_eqI [where k = 52 and m = 7074237752028440]) simp_all
qed

lemma fl_near_1:
  assumes "1 - 1 / 2 ^ 54 < y" and "y \<le> 1"
  shows "fl y = 1"
proof (cases "y = 1")
  case True
  show ?thesis unfolding True by (rule fl_1)
next
  case False
  with assms have y: "y < 1" "1 - 1 / 2 ^ 54 < y" by simp_all
  show ?thesis
  proof (rule fl_eqI [where k = 53 and m = 9007199254740992])
    from y show "2 ^ 52 \<le> \<bar>y\<bar> * 2 ^ 53" "\<bar>y\<bar> * 2 ^ 53 < 2 ^ 53"
      "\<bar>y * 2 ^ 53 - real_of_int 9007199254740992\<bar> < 1 / 2" by simp_all
  qed simp_all
qed

lemma sin64_values:
  "sin64 (6445416618514801 / 2 ^ 52) = 4459770905381437 / 2 ^ 52"
  "sin64 (884279719003555 / 2 ^ 49) = 1"
proof -
  show "sin64 (6445416618514801 / 2 ^ 52) = 4459770905381437 / 2 ^ 52"
    unfolding sin64_def
    using sin_82 by (intro fl_between [where k = 53 and m = 8919541810762874]) simp_all
  show "sin64 (884279719003555 / 2 ^ 49) = 1"
    unfolding sin64_def using sin_90 by (intro fl_near_1) simp_all
qed

lemma cos64_values:
  "cos64 (6445416618514801 / 2 ^ 52) = 2507119702494989 / 2 ^ 54"
  "cos64 (- (6445416618514801 / 2 ^ 52)) = 2507119702494989 / 2 ^ 54"
proof -
  show 1: "cos64 (6445416618514801 / 2 ^ 52) = 2507119702494989 / 2 ^ 54"
    unfolding cos64_def
    using cos_82 by (intro fl_between [where k = 55 and m = 5014239404989978]) simp_all
  then show "cos64 (- (6445416618514801 / 2 ^ 52)) = 2507119702494989 / 2 ^ 54"
    by (simp add: cos64_def)
qed

text \<open>The sum of the two terms is \<open>1 + 2 ^ -52\<close>, the number next to 1: the term
  \<open>sin\<^sup>2\<close> is rounded up.\<close>

lemma haversine64_antipodal: "haversine64 (- 82) 0 82 180 = 1 + 1 / 2 ^ 52"
proof -
  have t1: "fl (4459770905381437 / 2 ^ 52 * (4459770905381437 / 2 ^ 52)) = 8832737443003841 / 2 ^ 53"
    by (rule fl_eqI [where k = 53 and m = 8832737443003841]) simp_all
  have t2: "fl (2507119702494989 / 2 ^ 54 * (2507119702494989 / 2 ^ 54)) = 2791388987794435 / 2 ^ 57"
    by (rule fl_eqI [where k = 58 and m = 5582777975588870]) simp_all
  have t3: "fl (2791388987794435 / 2 ^ 57) = 2791388987794435 / 2 ^ 57"
    by (rule fl_eqI [where k = 58 and m = 5582777975588870]) simp_all
  have a: "fl (8832737443003841 / 2 ^ 53 + 2791388987794435 / 2 ^ 57) = 1 + 1 / 2 ^ 52"
    by (rule fl_eqI [where k = 52 and m = 4503599627370497]) simp_all
  have d: "(82::real) - - 82 = 164" "(180::real) - 0 = 180" by simp_all
  show ?thesis
    unfolding haversine64_def
    by (simp only: d fl_values toRadians64_values sin64_values cos64_values mult_1_right t1 t2 t3 a)
qed

lemma calculateDistance64_haversine64:
  "calculateDistance64 lat1 lon1 lat2 lon2 =
     fmul (Fin 6371) (fmul (Fin 2)
       (atan2_64 (sqrt64 (haversine64 lat1 lon1 lat2 lon2))
          (sqrt64 (fl (1 - haversine64 lat1 lon1 lat2 lon2)))))"
  by (simp add: calculateDistance64_def haversine64_def Let_def)

lemma calculateDistance64_antipodal: "calculateDistance64 (- 82) 0 82 180 = NaN"
proof -
  have "fl (1 - (1 + 1 / 2 ^ 52)) = - (1 / 2 ^ 52)"
    by (rule fl_eqI [where k = 104 and m = "- 4503599627370496"]) simp_all
  then show ?thesis
    by (simp add: calculateDistance64_haversine64 haversine64_antipodal sqrt64_def)
qed

subsection \<open>A destination that is not reached\<close>

lemma unreached_relax64: "unreached st \<Longrightarrow> unreached (relax64 currentNodeId st neighbor)"
  by (auto simp: unreached_def relax64_def Let_def split: jsnum.splits double.splits)

lemma unreached_relaxAll64: "unreached st \<Longrightarrow> unreached (relaxAll64 graph currentNodeId st)"
proof -
  have "unreached st \<Longrightarrow> unreached (foldl (relax64 currentNodeId) st l)" for l
    by (induction l arbitrary: st) (simp_all add: unreached_relax64)
  then show "unreached st \<Longrightarrow> unreached (relaxAll64 graph currentNodeId st)"
    by (simp add: relaxAll64_def)
qed

lemma unreached_dijkstraLoop64:
  assumes run: "dijkstraLoop64 graph st = Some st'" and u: "unreached st"
  shows "unreached st'"
proof -
  have "unreached st \<longrightarrow> unreached st'"
  proof (rule dijkstraLoop64.raw_induct
      [where P = "\<lambda>g s y. unreached s \<longrightarrow> unreached y", OF _ run])
    fix loop :: "Adjacency64 \<Rightarrow> SolverState \<Rightarrow> SolverState option"
      and g :: Adjacency64 and s y :: SolverState
    assume IH: "\<And>g s y. loop g s = Some y \<Longrightarrow> unreached s \<longrightarrow> unreached y"
    assume step: "(case pq s of [] \<Rightarrow> Some s
        | item # items \<Rightarrow>
            if fst item = [] then Some (s\<lparr>pq := items\<rparr>)
            else if fst item = ''destination'' then Some (s\<lparr>pq := items\<rparr>)
                 else loop g (relaxAll64 g (fst item) (s\<lparr>pq := items\<rparr>))) = Some y"
    show "unreached s \<longrightarrow> unreached y"
    proof
      assume c: "unreached s"
      show "unreached y"
      proof (cases "pq s")
        case Nil
        with step c show ?thesis by simp
      next
        case (Cons item items)
        from c have c1: "unreached (s\<lparr>pq := items\<rparr>)" by (simp add: unreached_def)
        show ?thesis
        proof (cases "fst item = [] \<or> fst item = ''destination''")
          case True
          with step Cons c1 show ?thesis by auto
        next
          case False
          with step Cons have "loop g (relaxAll64 g (fst item) (s\<lparr>pq := items\<rparr>)) = Some y"
            by auto
          from IH [OF this] unreached_relaxAll64 [OF c1] show ?thesis by blast
        qed
      qed
    qed
  qed
  with u show ?thesis by blast
qed

lemma unreached_initState: "unreached (initState nodes)"
  by (simp add: unreached_def initState_distances initState_previous)

lemma makeResult64_single:
  "makeResult64 [n] =
     \<lparr>path64 = [n], totalDistance64 = Fin 0, totalTime64 = Fin 0, algorithm64 = ''Dijkstra's'',
       directions64 = []\<rparr>"
  by (simp add: makeResult64_def Let_def sumDistance64_def makeDirections64_def roundTenth_def
      fl_0 js_round_def)

lemma findShortestPathOn64_unreached:
  assumes "dijkstraLoop64 (buildGraph64 nodes edges) (initState nodes) = Some st"
    and "previous st ''destination'' = Some None"
    and "find (\<lambda>n. node_id n = ''destination'') nodes = Some n"
  shows "findShortestPathOn64 nodes edges =
     Some \<lparr>path64 = [n], totalDistance64 = Fin 0, totalTime64 = Fin 0,
           algorithm64 = ''Dijkstra's'', directions64 = []\<rparr>"
  using assms
  by (simp add: findShortestPathOn64_def reconstruct_unreached unshiftNode_def makeResult64_single)

lemma find_graphNodes64:
  "find (\<lambda>n. node_id n = ''destination'') (graphNodes64 s d rnd) = Some (destNode d)"
  by (simp add: graphNodes64_def Let_def sourceNode_def destNode_def)

lemma findShortestPath64_unreached:
  assumes gen: "generateGraph64 s d rt rnd = (nodes, edges)"
    and run: "dijkstraLoop64 (buildGraph64 nodes edges) (initState nodes) = Some st"
    and dist: "distances st ''destination'' = Some Infinity"
  shows "previous st ''destination'' = Some None"
    and "findShortestPath64 s d rt rnd =
     Some \<lparr>path64 = [destNode d], totalDistance64 = Fin 0, totalTime64 = Fin 0,
           algorithm64 = ''Dijkstra's'', directions64 = []\<rparr>"
proof -
  from unreached_dijkstraLoop64 [OF run unreached_initState] dist
  show p: "previous st ''destination'' = Some None" by (simp add: unreached_def)
  from gen have n: "nodes = graphNodes64 s d rnd" by (auto simp: generateGraph64_def Let_def)
  from findShortestPathOn64_unreached [OF run p find_graphNodes64 [of s d rnd, folded n]]
  show "findShortestPath64 s d rt rnd =
     Some \<lparr>path64 = [destNode d], totalDistance64 = Fin 0, totalTime64 = Fin 0,
           algorithm64 = ''Dijkstra's'', directions64 = []\<rparr>"
    by (simp add: findShortestPath64_def gen)
qed

subsection \<open>The route between the antipodal points\<close>

lemma graphNodes64_antipodal: "graphNodes64 south north rnd = antipodalNodes"
  by (simp add: graphNodes64_def Let_def south_def north_def calculateDistance64_antipodal
      numWaypointsOf64_def antipodalNodes_def)

lemma generateGraph64_antipodal: "generateGraph64 south north rt rnd = (antipodalNodes, [antipodalEdge])"
proof -
  have "nodeDistance64 (sourceNode south) (destNode north) = NaN"
    by (simp add: nodeDistance64_def sourceNode_def destNode_def south_def north_def
        calculateDistance64_antipodal)
  then have "makeEdge64 rt r (sourceNode south) (destNode north) = antipodalEdge" for r
    by (simp add: makeEdge64_def Let_def antipodalEdge_def sourceNode_def destNode_def)
  then show ?thesis
    by (simp add: generateGraph64_def Let_def graphNodes64_antipodal graphEdges64_def
        antipodalNodes_def enumerate_simps)
qed

lemma relax64_NaN: "nb_weight64 neighbor = NaN \<Longrightarrow> relax64 currentNodeId st neighbor = st"
  by (simp add: relax64_def split: jsnum.split)

lemma neighborsOf64_antipodal:
  "neighborsOf64 (buildGraph64 antipodalNodes [antipodalEdge]) ''source'' =
     [\<lparr>nodeId64 = ''destination'', nb_weight64 = NaN, nb_distance64 = NaN\<rparr>]"
  by (simp add: neighborsOf64_def buildGraph64_def addEdge64_def pushNeighbor64_def
      antipodalNodes_def antipodalEdge_def sourceNode_def destNode_def)

lemma dijkstraLoop64_antipodal:
  "dijkstraLoop64 (buildGraph64 antipodalNodes [antipodalEdge]) (initState antipodalNodes) =
     Some antipodalFinal"
proof -
  let ?g = "buildGraph64 antipodalNodes [antipodalEdge]"
  let ?st = "(initState antipodalNodes)\<lparr>pq := []\<rparr>"
  have r: "relaxAll64 ?g ''source'' ?st = ?st"
    by (simp add: relaxAll64_def neighborsOf64_antipodal relax64_NaN)
  have "dijkstraLoop64 ?g (initState antipodalNodes) = dijkstraLoop64 ?g ?st"
    by (subst dijkstraLoop64.simps) (simp add: initState_pq r)
  also have "\<dots> = Some ?st"
    by (subst dijkstraLoop64.simps) simp
  finally show ?thesis by (simp add: antipodalFinal_def)
qed

lemma antipodalFinal_tables:
  "distances antipodalFinal ''source'' = Some (Num 0)"
  "distances antipodalFinal ''destination'' = Some Infinity"
  "previous antipodalFinal ''destination'' = Some None"
  by (simp_all add: antipodalFinal_def initState_distances initState_previous antipodalNodes_def)

lemma find_antipodal:
  "find (\<lambda>n. node_id n = ''destination'') antipodalNodes = Some (destNode north)"
  by (simp add: antipodalNodes_def)

lemma findShortestPath64_antipodal:
  "findShortestPath64 south north rt rnd =
     Some \<lparr>path64 = [destNode north], totalDistance64 = Fin 0, totalTime64 = Fin 0,
           algorithm64 = ''Dijkstra's'', directions64 = []\<rparr>"
  using findShortestPathOn64_unreached [OF dijkstraLoop64_antipodal antipodalFinal_tables(3)
      find_antipodal]
  by (simp add: findShortestPath64_def generateGraph64_antipodal)

section \<open>The claims\<close>

text \<open>
  C1. The claim is that every returned path starts with the caller's source and ends with
  the caller's destination. In binary64 arithmetic the route from (-82, 0) to (82, 180),
  two antipodal points, is returned with a path of one node, the destination: the term
  \<open>a\<close> of \<^verbatim>\<open>calculateDistance\<close> is rounded to \<open>1 + 2 ^ -52\<close>, so \<^verbatim>\<open>Math.sqrt(1 - a)\<close>
  and the distance are \<^verbatim>\<open>NaN\<close>, no waypoint is made, the one edge is never relaxed, and
  the backward walk from \<^verbatim>\<open>'destination'\<close> ends at once.
\<close>

theorem C1_path_without_source:
  "findShortestPath64 south north Shortest rnd =
     Some \<lparr>path64 = [\<lparr>lat = 82, lng = 180, name = ''N'', category = None,
                       node_id = ''destination''\<rparr>],
           totalDistance64 = Fin 0, totalTime64 = Fin 0, algorithm64 = ''Dijkstra's'',
           directions64 = []\<rparr> \<and>
   haversine64 (- 82) 0 82 180 = 1 + 1 / 2 ^ 52 \<and>
   calculateDistance64 (- 82) 0 82 180 = NaN \<and>
   graphNodes64 south north rnd = [sourceNode south, destNode north]"
  using findShortestPath64_antipodal [of Shortest rnd] graphNodes64_antipodal [of rnd]
  by (simp add: haversine64_antipodal calculateDistance64_antipodal antipodalNodes_def
      destNode_def north_def)

text \<open>
  C2. The claim is that in \<^verbatim>\<open>'shortest'\<close> mode the distance that the solver stores for
  \<^verbatim>\<open>'destination'\<close> is at most the sum of the base distances along the chain source,
  waypoints, destination. For the antipodal points (-82, 0) and (82, 180) the chain is the
  one edge from source to destination, of length \<open>6371 \<pi>\<close> km; its base distance is
  computed as \<^verbatim>\<open>NaN\<close>, the comparison \<^verbatim>\<open>0 + NaN < Infinity\<close> is false, and the solver
  leaves its loop with the distance of \<^verbatim>\<open>'destination'\<close> infinite.
\<close>

theorem C2_destination_unreached:
  "generateGraph64 south north Shortest rnd = (antipodalNodes, [antipodalEdge]) \<and>
   distance64 antipodalEdge = NaN \<and> weight64 antipodalEdge = NaN \<and>
   dijkstraLoop64 (buildGraph64 antipodalNodes [antipodalEdge]) (initState antipodalNodes) =
     Some antipodalFinal \<and>
   distances antipodalFinal ''destination'' = Some Infinity \<and>
   literalChain antipodalNodes = [sourceNode south, destNode north] \<and>
   greatCircleSum (literalChain antipodalNodes) = 6371 * pi"
proof -
  have "distance64 antipodalEdge = NaN" "weight64 antipodalEdge = NaN"
    by (simp_all add: antipodalEdge_def)
  moreover have c: "literalChain antipodalNodes = [sourceNode south, destNode north]"
    by (simp add: literalChain_def antipodalNodes_def)
  moreover have "greatCircleSum (literalChain antipodalNodes) = 6371 * pi"
    unfolding c greatCircleSum_two nodeDistance_greatCircleKm [symmetric]
    by (simp add: nodeDistance_def sourceNode_def destNode_def south_def north_def
        calculateDistance_antipodal)
  ultimately show ?thesis
    by (simp add: generateGraph64_antipodal dijkstraLoop64_antipodal antipodalFinal_tables)
qed

text \<open>
  C4, as amended. For every coordinate \<open>p\<close> and every run, the route from \<open>p\<close> to \<open>p\<close> in
  \<^verbatim>\<open>'shortest'\<close> mode is returned with total distance 0 and total time 0; its path has the
  two nodes source and destination, and it has one direction entry, the start instruction,
  whose compass label \<^verbatim>\<open>'North'\<close> is computed from the zero-length segment.
\<close>

theorem C4_degenerate_route:
  "findShortestPath p p Shortest rnd =
     Some \<lparr>path = [sourceNode p, destNode p], totalDistance = 0, totalTime = 0,
           algorithm = ''Dijkstra's'',
           directions = [\<lparr>instruction = ''Start your journey from '' @ name p, leg_distance = 0,
                          direction = ''North''\<rparr>]\<rparr>"
  by (rule findShortestPath_same)

theorem C4_degenerate_route_witness:
  "findShortestPath origin origin Shortest halfDraws =
     Some \<lparr>path = [sourceNode origin, destNode origin], totalDistance = 0, totalTime = 0,
           algorithm = ''Dijkstra's'',
           directions = [\<lparr>instruction = ''Start your journey from A'', leg_distance = 0,
                          direction = ''North''\<rparr>]\<rparr>"
  using C4_degenerate_route [of origin halfDraws] by (simp add: origin_def)

text \<open>
  C4 as stated fails: the route from the point (0, 0) to itself has a path of two nodes,
  not one, and a direction entry labelled \<^verbatim>\<open>'North'\<close> for its segment of length 0.
\<close>

theorem C4_counterexample:
  "findShortestPath origin origin Shortest halfDraws =
     Some \<lparr>path = [\<lparr>lat = 0, lng = 0, name = ''A'', category = None, node_id = ''source''\<rparr>,
                   \<lparr>lat = 0, lng = 0, name = ''A'', category = None, node_id = ''destination''\<rparr>],
           totalDistance = 0, totalTime = 0, algorithm = ''Dijkstra's'',
           directions = [\<lparr>instruction = ''Start your journey from A'', leg_distance = 0,
                          direction = ''North''\<rparr>]\<rparr>
   \<and> calculateDistance 0 0 0 0 = 0 \<and> calculateBearing 0 0 0 0 = ''North''"
  using findShortestPath_same [of origin halfDraws]
  by (simp add: origin_def sourceNode_def destNode_def calculateDistance_same calculateBearing_same)

text \<open>
  C5. The claim is that two runs in \<^verbatim>\<open>'shortest'\<close> mode with the same source and
  destination return the same total distance. From (0, 0) to (0, 0.001), the run in which
  \<^verbatim>\<open>Math.random()\<close> gives 0 returns the direct route, and the run in which it gives 1/2
  does not return.
\<close>

theorem C5_runs_differ:
  "findShortestPath origin nearby Shortest zeroDraws =
     Some (makeResult [sourceNode origin, destNode nearby]) \<and>
   findShortestPath origin nearby Shortest halfDraws = None"
  by (simp add: findShortestPath_eq lightest_origin_nearby_zero not_lightest_origin_nearby)

text \<open>
  C9. The claim is that the route computation terminates on every input, the predecessor
  table being acyclic. From (0, 0) to (0, 2) in \<^verbatim>\<open>'shortest'\<close> mode, with \<^verbatim>\<open>Math.random()\<close>
  giving 1/2, it does not return: the solver leaves its loop with \<^verbatim>\<open>'waypoint_1'\<close> as the
  predecessor of \<^verbatim>\<open>'source'\<close> and \<^verbatim>\<open>'source'\<close> as the predecessor of \<^verbatim>\<open>'waypoint_1'\<close>,
  having raised the distance of \<^verbatim>\<open>'source'\<close> from 0 and enqueued it again, and the backward
  walk from \<^verbatim>\<open>'destination'\<close> never ends.
\<close>

theorem C9_never_returns:
  "findShortestPath origin east2 Shortest halfDraws = None \<and>
   dijkstraLoop east2Graph (initState east2Nodes) = Some east2Final \<and>
   previous east2Final ''destination'' = Some (Some ''source'') \<and>
   previous east2Final ''source'' = Some (Some ''waypoint_1'') \<and>
   previous east2Final ''waypoint_1'' = Some (Some ''source'') \<and>
   distances (initState east2Nodes) ''source'' = Some (Num 0) \<and>
   distances east2Final ''source'' = Some (Num (6371 * (pi / 90))) \<and>
   pq east2Final = [(''source'', 6371 * (pi / 90))] \<and>
   reconstruct east2Nodes (previous east2Final) ''destination'' [] = None"
  by (simp add: findShortestPath_eq not_lightest_origin_east2 east2_trace east2_reconstruct
      east2_init)

text \<open>
  C6. The direction list has one entry less than the path has nodes whenever the path has
  at least 2 nodes, and is empty whenever the path has fewer than 2 nodes; the directions
  of a computed route are the direction list of its path.
\<close>

theorem C6_direction_count:
  "(2 \<le> length p \<longrightarrow> length (makeDirections p) = length p - 1) \<and>
   (length p < 2 \<longrightarrow> makeDirections p = []) \<and>
   (findShortestPath s d rt rnd = Some r \<longrightarrow> directions r = makeDirections (path r))"
  by (simp add: length_makeDirections makeDirections_short directions_SomeD)

theorem C6_direction_count_witness:
  "2 \<le> length twoNodes \<and> length (makeDirections twoNodes) = length twoNodes - 1 \<and>
   length [destNode east2] < 2 \<and> makeDirections [destNode east2] = [] \<and>
   findShortestPath origin nearby Shortest zeroDraws =
     Some (makeResult [sourceNode origin, destNode nearby]) \<and>
   directions (makeResult [sourceNode origin, destNode nearby]) =
     makeDirections (path (makeResult [sourceNode origin, destNode nearby]))"
proof -
  have h: "findShortestPath origin nearby Shortest zeroDraws =
      Some (makeResult [sourceNode origin, destNode nearby])"
    by (simp add: findShortestPath_eq lightest_origin_nearby_zero)
  from C6_direction_count [of twoNodes origin nearby Shortest zeroDraws
      "makeResult [sourceNode origin, destNode nearby]"]
    C6_direction_count [of "[destNode east2]" origin nearby Shortest zeroDraws
      "makeResult [sourceNode origin, destNode nearby]"] h
  show ?thesis by (simp add: twoNodes_def)
qed



text \<open>
  C10. Whenever the path that the backward walk reconstructs has exactly 2 nodes, the
  route that is returned has this path and exactly one direction entry, the instruction
  \<^verbatim>\<open>Start your journey from ...\<close> for the first node; it is no \<^verbatim>\<open>Arrive at ...\<close>
  instruction.
\<close>

theorem C10_two_node_route:
  assumes "generateGraph s d rt rnd = (nodes, edges)"
    and "dijkstraLoop (buildGraph nodes edges) (initState nodes) = Some st"
    and "reconstruct nodes (previous st) ''destination'' [] = Some p"
    and "length p = 2"
  shows "findShortestPath s d rt rnd = Some (makeResult p) \<and>
     path (makeResult p) = p \<and>
     directions (makeResult p) =
       [\<lparr>instruction = ''Start your journey from '' @ name (hd p),
         leg_distance = of_int (js_round (nodeDistance (hd p) (last p) * 10)) / 10,
         direction = calculateBearing (lat (hd p)) (lng (hd p)) (lat (last p)) (lng (last p))\<rparr>] \<and>
     (\<forall>n. ''Start your journey from '' @ name (hd p) \<noteq> ''Arrive at '' @ n)"
proof -
  from assms(4) obtain a b where p: "p = [a, b]" by (cases p; cases "tl p") auto
  from assms(1,2,3) have "findShortestPath s d rt rnd = Some (makeResult p)"
    by (simp add: findShortestPath_def findShortestPathOn_def)
  then show ?thesis
    by (simp add: p makeDirections_two makeDirection_def Let_def)
qed

theorem C10_two_node_route_witness:
  "generateGraph origin nearby Shortest zeroDraws = (nearbyNodes, nearbyEdges) \<and>
   dijkstraLoop (buildGraph nearbyNodes nearbyEdges) (initState nearbyNodes) = Some nearbyFinal \<and>
   reconstruct nearbyNodes (previous nearbyFinal) ''destination'' [] =
     Some [sourceNode origin, destNode nearby] \<and>
   length [sourceNode origin, destNode nearby] = 2 \<and>
   findShortestPath origin nearby Shortest zeroDraws =
     Some (makeResult [sourceNode origin, destNode nearby]) \<and>
   path (makeResult [sourceNode origin, destNode nearby]) =
     [\<lparr>lat = 0, lng = 0, name = ''A'', category = None, node_id = ''source''\<rparr>,
      \<lparr>lat = 0, lng = 1 / 1000, name = ''C'', category = None, node_id = ''destination''\<rparr>] \<and>
   directions (makeResult [sourceNode origin, destNode nearby]) =
     [\<lparr>instruction = ''Start your journey from A'', leg_distance = 1 / 10,
       direction = calculateBearing 0 0 0 (1 / 1000)\<rparr>]"
proof -
  have g: "generateGraph origin nearby Shortest zeroDraws = (nearbyNodes, nearbyEdges)"
    by (simp add: nearby_generated nearbyEdges_def)
  have l: "length [sourceNode origin, destNode nearby] = 2" by simp
  have d: "of_int (js_round (nodeDistance (sourceNode origin) (destNode nearby) * 10)) / 10 = (1 / 10 :: real)"
    by (simp add: nearby_distance nearby_rounded)
  from C10_two_node_route [OF g nearby_run nearby_reconstruct l] g nearby_run nearby_reconstruct d
  show ?thesis
    by (simp add: sourceNode_def destNode_def origin_def nearby_def)
qed

text \<open>
  C8. The claim is that every edge of a synthesized graph has a weight \<open>\<ge> 0\<close>. In
  binary64 arithmetic the graph for the antipodal points (-82, 0) and (82, 180) has one
  edge, and under both route types its weight is \<^verbatim>\<open>NaN\<close>, which is not \<open>\<ge> 0\<close>: the
  term \<open>a\<close> of \<^verbatim>\<open>calculateDistance\<close> is rounded to \<open>1 + 2 ^ -52\<close>, and
  \<^verbatim>\<open>Math.sqrt(1 - a)\<close> is taken of a negative number.
\<close>

theorem C8_weight_not_a_number:
  "snd (generateGraph64 south north rt rnd) =
     [\<lparr>from64 = ''source'', to64 = ''destination'', weight64 = NaN, distance64 = NaN\<rparr>] \<and>
   haversine64 (- 82) 0 82 180 = 1 + 1 / 2 ^ 52 \<and>
   fl (1 - haversine64 (- 82) 0 82 180) = - (1 / 2 ^ 52) \<and>
   sqrt64 (fl (1 - haversine64 (- 82) 0 82 180)) = NaN \<and>
   nodeDistance64 (sourceNode south) (destNode north) = NaN \<and>
   nodeDistance64 (destNode north) (destNode north) = Fin 0"
proof -
  have "fl (1 - (1 + 1 / 2 ^ 52)) = - (1 / 2 ^ 52)"
    by (rule fl_eqI [where k = 104 and m = "- 4503599627370496"]) simp_all
  moreover have "nodeDistance64 (sourceNode south) (destNode north) = NaN"
    by (simp add: nodeDistance64_def sourceNode_def destNode_def south_def north_def
        calculateDistance64_antipodal)
  moreover have "nodeDistance64 (destNode north) (destNode north) = Fin 0"
    by (simp add: nodeDistance64_def calculateDistance64_same)
  ultimately show ?thesis
    by (simp add: generateGraph64_antipodal antipodalEdge_def haversine64_antipodal sqrt64_def)
qed

text \<open>
  C3, as amended. When the solver leaves the distance of \<^verbatim>\<open>'destination'\<close> infinite, it
  leaves it without a predecessor, and \<^verbatim>\<open>findShortestPath\<close> returns an ordinary result:
  the path of the one node \<^verbatim>\<open>'destination'\<close>, total distance 0, total time 0 and no
  directions.
\<close>

theorem C3_unreachable_destination:
  assumes "generateGraph64 s d rt rnd = (nodes, edges)"
    and "dijkstraLoop64 (buildGraph64 nodes edges) (initState nodes) = Some st"
    and "distances st ''destination'' = Some Infinity"
  shows "previous st ''destination'' = Some None \<and>
     findShortestPath64 s d rt rnd =
       Some \<lparr>path64 = [destNode d], totalDistance64 = Fin 0, totalTime64 = Fin 0,
             algorithm64 = ''Dijkstra's'', directions64 = []\<rparr>"
  using findShortestPath64_unreached [OF assms] by simp

text \<open>The route between the antipodal points (-82, 0) and (82, 180).\<close>

theorem C3_unreachable_destination_witness:
  "generateGraph64 south north Shortest zeroDraws = (antipodalNodes, [antipodalEdge]) \<and>
   dijkstraLoop64 (buildGraph64 antipodalNodes [antipodalEdge]) (initState antipodalNodes) =
     Some antipodalFinal \<and>
   distances antipodalFinal ''destination'' = Some Infinity \<and>
   previous antipodalFinal ''destination'' = Some None \<and>
   findShortestPath64 south north Shortest zeroDraws =
     Some \<lparr>path64 = [destNode north], totalDistance64 = Fin 0, totalTime64 = Fin 0,
           algorithm64 = ''Dijkstra's'', directions64 = []\<rparr>"
  using C3_unreachable_destination [OF generateGraph64_antipodal dijkstraLoop64_antipodal
      antipodalFinal_tables(2), of Shortest zeroDraws]
  by (simp add: generateGraph64_antipodal dijkstraLoop64_antipodal antipodalFinal_tables)

text \<open>
  C3 as stated fails: for the route from (-82, 0) to (82, 180) the solver leaves the
  distance of \<^verbatim>\<open>'destination'\<close> infinite and its predecessor \<^verbatim>\<open>null\<close>, and what is
  returned is a route of one node with total distance 0 and total time 0.
\<close>

theorem C3_counterexample:
  "generateGraph64 south north Shortest zeroDraws = (antipodalNodes, [antipodalEdge]) \<and>
   dijkstraLoop64 (buildGraph64 antipodalNodes [antipodalEdge]) (initState antipodalNodes) =
     Some antipodalFinal \<and>
   distances antipodalFinal ''destination'' = Some Infinity \<and>
   previous antipodalFinal ''destination'' = Some None \<and>
   findShortestPath64 south north Shortest zeroDraws =
     Some \<lparr>path64 = [\<lparr>lat = 82, lng = 180, name = ''N'', category = None,
                       node_id = ''destination''\<rparr>],
           totalDistance64 = Fin 0, totalTime64 = Fin 0, algorithm64 = ''Dijkstra's'',
           directions64 = []\<rparr>"
  using findShortestPath64_antipodal [of Shortest zeroDraws]
    generateGraph64_antipodal [of Shortest zeroDraws]
  by (simp add: dijkstraLoop64_antipodal antipodalFinal_tables destNode_def north_def)

end
